(* ===== verification/Prelude.thy ===== *)
theory Prelude
  imports Main "HOL-Library.Word"
begin

text \<open>
  Shared vocabulary of the development: the machine types of the Go program, its error
  values, and the generic lemmas on words, lists and maps that the component theories use.
  \<^item> \<open>int64\<close> and \<open>int32\<close> are machine words of that width; \<open>+\<close> wraps as Go's does, and
    the signed orders \<open>\<le>s\<close>, \<open><s\<close> are Go's comparisons of signed integers.
  \<^item> \<open>uuid\<close> is the 128-bit value of a \<open>uuid.UUID\<close>.
  \<^item> \<open>time\<close> is a \<open>time.Time\<close>: nanoseconds since the Unix epoch, unbounded because the
    seconds of a Go time are a 64-bit count that no operation of the program leaves.
  \<^item> \<open>duration\<close> is a \<open>time.Duration\<close> in nanoseconds.
  \<^item> a Go string or byte slice is the list of its bytes.
\<close>

section \<open>Types\<close>

type_synonym int64 = "64 word"
type_synonym int32 = "32 word"
type_synonym uuid = "128 word"
type_synonym time = int
type_synonym duration = int
type_synonym bytes = string

text \<open>
  An error value. \<open>ErrNew\<close> is \<open>errors.New\<close> or a \<open>fmt.Errorf\<close> without \<open>%w\<close>;
  \<open>ErrWrap\<close> is a \<open>fmt.Errorf\<close> whose format ends in \<open>: %w\<close>, holding the text before it
  and the wrapped error. The values a format prints (\<open>%q\<close>, \<open>%s\<close>, \<open>%d\<close>) are left out
  of the text. \<open>ErrDriver\<close> is an error a client library returned, with its text;
  \<open>ErrNoRows\<close> and \<open>ErrRedisNil\<close> are the libraries' \<open>pgx.ErrNoRows\<close> and
  \<open>redis.Nil\<close>. \<open>Panicked\<close> stands for a run-time panic that leaves the function.
\<close>

datatype go_error =
    ErrNew string
  | ErrWrap string go_error
  | ErrDriver string
  | ErrNoRows
  | ErrRedisNil
  | Panicked string

type_synonym 'a result = "go_error + 'a"

text \<open>\<open>err.Error()\<close> and \<open>errors.Is(err, target)\<close>.\<close>

fun error_text :: "go_error \<Rightarrow> string" where
  "error_text (ErrNew s) = s"
| "error_text (ErrWrap s e) = s @ '': '' @ error_text e"
| "error_text (ErrDriver s) = s"
| "error_text ErrNoRows = ''no rows in result set''"
| "error_text ErrRedisNil = ''redis: nil''"
| "error_text (Panicked s) = s"

fun errors_is :: "go_error \<Rightarrow> go_error \<Rightarrow> bool" where
  "errors_is (ErrWrap s e) target = (ErrWrap s e = target \<or> errors_is e target)"
| "errors_is e target = (e = target)"

lemma errors_is_refl [simp]: "errors_is e e"
  by (cases e) auto

lemma errors_is_wrap [intro]: "errors_is e target \<Longrightarrow> errors_is (ErrWrap s e) target"
  by simp

section \<open>Collections of rules\<close>

named_theorems go_std \<open>evaluation of the standard library functions on literals\<close>
named_theorems sql \<open>the effect of one SQL statement on the tables\<close>
named_theorems inv_intro \<open>preservation of the ledger invariant\<close>

section \<open>Signed 64-bit and 32-bit arithmetic\<close>

lemma sint64_bounds: "- (2 ^ 63) \<le> sint (a :: int64)" "sint (a :: int64) < 2 ^ 63"
  using sint_greater_eq [of a] sint_lt [of a] by simp_all

lemma sint32_bounds: "- (2 ^ 31) \<le> sint (a :: int32)" "sint (a :: int32) < 2 ^ 31"
  using sint_greater_eq [of a] sint_lt [of a] by simp_all

lemma sint64_add:
  fixes a b :: int64
  assumes "- (2 ^ 63) \<le> sint a + sint b" and "sint a + sint b < 2 ^ 63"
  shows "sint (a + b) = sint a + sint b"
  using assms by (simp add: sint_word_ariths signed_take_bit_int_eq_self)

lemma sint64_sub:
  fixes a b :: int64
  assumes "- (2 ^ 63) \<le> sint a - sint b" and "sint a - sint b < 2 ^ 63"
  shows "sint (a - b) = sint a - sint b"
  using assms by (simp add: sint_word_ariths signed_take_bit_int_eq_self)

lemma sint32_add:
  fixes a b :: int32
  assumes "- (2 ^ 31) \<le> sint a + sint b" and "sint a + sint b < 2 ^ 31"
  shows "sint (a + b) = sint a + sint b"
  using assms by (simp add: sint_word_ariths signed_take_bit_int_eq_self)

lemma sint64_inject [simp]: "sint (a :: int64) = sint b \<longleftrightarrow> a = b"
  by (auto intro: signed_word_eqI)

lemma sint64_of_int:
  assumes "- (2 ^ 63) \<le> n" and "n < 2 ^ 63"
  shows "sint (word_of_int n :: int64) = n"
  using assms by (simp add: sint_sbintrunc' signed_take_bit_int_eq_self)

lemma sint64_of_nat: "n < 2 ^ 63 \<Longrightarrow> sint (word_of_nat n :: int64) = int n"
  using sint64_of_int [of "int n"] by simp

lemma sint64_pos_iff: "(0 :: int64) <s a \<longleftrightarrow> 0 < sint a"
  by (simp add: word_sless_alt)

section \<open>Lists and options\<close>

lemma find_Some_iff_set: "find P xs = Some x \<Longrightarrow> x \<in> set xs \<and> P x"
  by (auto simp: find_Some_iff)

lemma find_append: "find P (xs @ ys) = (case find P xs of None \<Rightarrow> find P ys | Some x \<Rightarrow> Some x)"
  by (induction xs) auto

lemma find_None_filter: "find P xs = None \<longleftrightarrow> filter P xs = []"
  by (induction xs) auto

lemma upto_snoc: "0 < n \<Longrightarrow> [1..n] = [1..n - 1] @ [n :: int]"
  by (simp add: upto_rec2)

lemma upto_Suc_snoc: "[1..int (Suc n)] = [1..int n] @ [int n + 1]"
  using upto_snoc [of "int (Suc n)"] by (simp add: add.commute)

lemma mem_upto_length: "x \<in> set [1..int n] \<longleftrightarrow> 1 \<le> x \<and> x \<le> int n"
  by auto

end
