(* ===== verification/Go_Std.thy ===== *)
theory Go_Std
  imports Prelude
begin

text \<open>
  The parts of Go's standard library the program computes with, for the calls it makes:
  \<open>strconv.ParseInt(s, 10, 64)\<close> and \<open>strconv.ParseUint(s, 10, 64)\<close>, the decimal text
  \<open>fmt.Sprint\<close> prints for an \<open>int64\<close>, \<open>strings.SplitN(s, sep, 2)\<close> for a one-byte
  separator, \<open>strings.ReplaceAll\<close> for one-byte arguments, \<open>strings.Contains\<close>, and
  \<open>time.UnixMilli\<close>, \<open>Time.IsZero\<close>, \<open>Time.Before\<close>. The main lemma is the round trip
  of decimal integers: parsing what was printed gives the number back.
\<close>

section \<open>Strings\<close>

fun split_n2 :: "char \<Rightarrow> string \<Rightarrow> string list" where
  "split_n2 sep s =
     (case dropWhile (\<lambda>c. c \<noteq> sep) s of
        [] \<Rightarrow> [s]
      | _ # rest \<Rightarrow> [takeWhile (\<lambda>c. c \<noteq> sep) s, rest])"

definition replace_all :: "char \<Rightarrow> char \<Rightarrow> string \<Rightarrow> string" where
  "replace_all old new s = map (\<lambda>c. if c = old then new else c) s"

fun has_prefix :: "string \<Rightarrow> string \<Rightarrow> bool" where
  "has_prefix s [] = True"
| "has_prefix [] (_ # _) = False"
| "has_prefix (c # s) (d # p) = (c = d \<and> has_prefix s p)"

fun contains_text :: "string \<Rightarrow> string \<Rightarrow> bool" where
  "contains_text [] p = (p = [])"
| "contains_text (c # s) p = (has_prefix (c # s) p \<or> contains_text s p)"

lemma split_n2_join:
  assumes "sep \<notin> set a"
  shows "split_n2 sep (a @ sep # b) = [a, b]"
proof -
  have "dropWhile (\<lambda>c. c \<noteq> sep) (a @ sep # b) = sep # b"
    using assms by (induction a) auto
  moreover have "takeWhile (\<lambda>c. c \<noteq> sep) (a @ sep # b) = a"
    using assms by (induction a) auto
  ultimately show ?thesis by simp
qed

lemma split_n2_no_sep: "sep \<notin> set s \<Longrightarrow> split_n2 sep s = [s]"
  by (simp add: dropWhile_eq_Nil_conv)
     (metis (mono_tags, lifting) dropWhile_eq_Nil_conv list.simps(4))

lemma split_n2_two:
  assumes "split_n2 sep s = [a, b]"
  shows "s = a @ sep # b \<and> sep \<notin> set a"
proof -
  have s: "s = takeWhile (\<lambda>c. c \<noteq> sep) s @ dropWhile (\<lambda>c. c \<noteq> sep) s" by simp
  from assms obtain c where d: "dropWhile (\<lambda>c. c \<noteq> sep) s = c # b"
    and t: "takeWhile (\<lambda>c. c \<noteq> sep) s = a"
    by (auto split: list.splits)
  from d have "c = sep" using hd_dropWhile [of "\<lambda>c. c \<noteq> sep" s] by auto
  with s d t have "s = a @ sep # b" by simp
  moreover from t have "sep \<notin> set a" by (metis set_takeWhileD)
  ultimately show ?thesis by simp
qed

section \<open>strconv: unsigned and signed decimal integers\<close>

definition ErrSyntax :: go_error where "ErrSyntax = ErrNew ''invalid syntax''"
definition ErrRange :: go_error where "ErrRange = ErrNew ''value out of range''"

lemma ErrSyntax_neq_ErrRange [simp]: "ErrSyntax \<noteq> ErrRange" "ErrRange \<noteq> ErrSyntax"
  by (simp_all add: ErrSyntax_def ErrRange_def)

text \<open>The value of one byte in base 10; in base 10 Go takes neither letters nor \<open>_\<close>.\<close>

definition digit_value :: "char \<Rightarrow> nat option" where
  "digit_value c =
     (let n = (of_char c :: nat) in if 48 \<le> n \<and> n \<le> 57 then Some (n - 48) else None)"

text \<open>The digit loop: a bad byte and an overflow are reported where the loop meets them.\<close>

fun parse_digits :: "nat \<Rightarrow> string \<Rightarrow> nat result" where
  "parse_digits n [] = Inr n"
| "parse_digits n (c # cs) =
     (case digit_value c of
        None \<Rightarrow> Inl ErrSyntax
      | Some d \<Rightarrow>
          if 2 ^ 64 \<le> n * 10 + d then Inl ErrRange
          else parse_digits (n * 10 + d) cs)"

definition ParseUint :: "string \<Rightarrow> nat result" where
  "ParseUint s = (if s = [] then Inl ErrSyntax else parse_digits 0 s)"

definition signed_of :: "bool \<Rightarrow> nat result \<Rightarrow> int64 result" where
  "signed_of neg r =
     (case r of
        Inl e \<Rightarrow> Inl e
      | Inr un \<Rightarrow>
          if \<not> neg \<and> 2 ^ 63 \<le> un then Inl ErrRange
          else if neg \<and> 2 ^ 63 < un then Inl ErrRange
          else Inr (word_of_int (if neg then - int un else int un)))"

definition ParseInt :: "string \<Rightarrow> int64 result" where
  "ParseInt s =
     (case s of
        [] \<Rightarrow> Inl ErrSyntax
      | c # cs \<Rightarrow>
          if c = CHR ''+'' then signed_of False (ParseUint cs)
          else if c = CHR ''-'' then signed_of True (ParseUint cs)
          else signed_of False (ParseUint s))"

section \<open>Decimal text of an integer\<close>

definition digit_char :: "nat \<Rightarrow> char" where
  "digit_char d = char_of (48 + d)"

lemma digit_chars [go_std]:
  "digit_char 0 = CHR ''0''" "digit_char (Suc 0) = CHR ''1''" "digit_char 1 = CHR ''1''"
  "digit_char 2 = CHR ''2''" "digit_char 3 = CHR ''3''" "digit_char 4 = CHR ''4''"
  "digit_char 5 = CHR ''5''" "digit_char 6 = CHR ''6''" "digit_char 7 = CHR ''7''"
  "digit_char 8 = CHR ''8''" "digit_char 9 = CHR ''9''"
  by code_simp+

fun decimal :: "nat \<Rightarrow> string" where
  "decimal n = (if n < 10 then [digit_char n] else decimal (n div 10) @ [digit_char (n mod 10)])"

declare decimal.simps [simp del]

definition sprint_int64 :: "int64 \<Rightarrow> string" where
  "sprint_int64 a =
     (let n = sint a in if n < 0 then CHR ''-'' # decimal (nat (- n)) else decimal (nat n))"

lemma digit_value_char: "d < 10 \<Longrightarrow> digit_value (digit_char d) = Some d"
  by (simp add: digit_value_def digit_char_def Let_def)

lemma parse_digits_append:
  "parse_digits n (xs @ ys) =
     (case parse_digits n xs of Inl e \<Rightarrow> Inl e | Inr m \<Rightarrow> parse_digits m ys)"
  by (induction n xs rule: parse_digits.induct) (auto split: option.splits)

lemma parse_digits_decimal: "n < 2 ^ 64 \<Longrightarrow> parse_digits 0 (decimal n) = Inr n"
proof (induction n rule: decimal.induct)
  case (1 n)
  show ?case
  proof (cases "n < 10")
    case True
    with 1 show ?thesis by (simp add: decimal.simps [of n] digit_value_char)
  next
    case False
    with 1 have "parse_digits 0 (decimal (n div 10)) = Inr (n div 10)" by simp
    with False 1 show ?thesis
      by (simp add: decimal.simps [of n] parse_digits_append digit_value_char)
  qed
qed

lemma decimal_not_Nil [simp]: "decimal n \<noteq> []"
  by (subst decimal.simps) simp

lemma ParseUint_decimal: "n < 2 ^ 64 \<Longrightarrow> ParseUint (decimal n) = Inr n"
  by (simp add: ParseUint_def parse_digits_decimal)

lemma set_decimal: "set (decimal n) \<subseteq> digit_char ` {..<10}"
proof (induction n rule: decimal.induct)
  case (1 n)
  then show ?case by (subst decimal.simps) auto
qed

lemma digit_char_not_sign:
  assumes "d < 10"
  shows "digit_char d \<noteq> CHR ''-''" and "digit_char d \<noteq> CHR ''+''"
proof -
  have c: "(of_char (digit_char d) :: nat) = 48 + d"
    using assms by (simp add: digit_char_def)
  show "digit_char d \<noteq> CHR ''-''" using c by (cases "digit_char d = CHR ''-''") auto
  show "digit_char d \<noteq> CHR ''+''" using c by (cases "digit_char d = CHR ''+''") auto
qed

lemma decimal_no_sign: "CHR ''-'' \<notin> set (decimal n)" "CHR ''+'' \<notin> set (decimal n)"
  using set_decimal [of n] digit_char_not_sign by fastforce+

lemma ParseInt_unsigned:
  assumes "s \<noteq> []" and "CHR ''-'' \<notin> set s" and "CHR ''+'' \<notin> set s"
  shows "ParseInt s = signed_of False (ParseUint s)"
  using assms by (cases s) (auto simp: ParseInt_def)

lemma ParseInt_decimal:
  assumes "n < 2 ^ 63"
  shows "ParseInt (decimal n) = Inr (word_of_int (int n))"
  using assms
  by (simp add: ParseInt_unsigned decimal_no_sign ParseUint_decimal signed_of_def)

text \<open>Parsing the text \<open>fmt.Sprint\<close> prints of an \<open>int64\<close> gives that \<open>int64\<close>.\<close>

lemma ParseInt_sprint: "ParseInt (sprint_int64 a) = Inr a"
proof (cases "sint a < 0")
  case True
  have le: "nat (- sint a) \<le> 2 ^ 63" using sint64_bounds [of a] by simp
  then have "ParseUint (decimal (nat (- sint a))) = Inr (nat (- sint a))"
    by (intro ParseUint_decimal) simp
  with True le show ?thesis
    by (simp add: sprint_int64_def ParseInt_def signed_of_def Let_def)
next
  case False
  then have "nat (sint a) < 2 ^ 63" using sint64_bounds [of a] by simp
  with False show ?thesis by (simp add: sprint_int64_def ParseInt_decimal Let_def)
qed

section \<open>time\<close>

text \<open>The zero \<open>time.Time\<close> is 1 January of year 1, 62135596800 seconds before the epoch.\<close>

definition zero_time :: time where
  "zero_time = - 62135596800 * 1000000000"

definition IsZero :: "time \<Rightarrow> bool" where
  "IsZero t \<longleftrightarrow> t = zero_time"

definition Before :: "time \<Rightarrow> time \<Rightarrow> bool" where
  "Before t u \<longleftrightarrow> t < u"

definition UnixMilli :: "int64 \<Rightarrow> time" where
  "UnixMilli ms = sint ms * 1000000"

lemma UnixMilli_not_zero: "0 \<le> sint ms \<Longrightarrow> \<not> IsZero (UnixMilli ms)"
  by (simp add: IsZero_def UnixMilli_def zero_time_def)

end
