(* ===== verification/Stream_Store.thy ===== *)
theory Stream_Store
  imports Go_Std
begin

text \<open>
  \<^verbatim>\<open>src/internal/store/redis/streams.go\<close>, \<^verbatim>\<open>recovery.go\<close>, \<^verbatim>\<open>pubsub.go\<close> and
  \<^verbatim>\<open>stream_time.go\<close>: the adapter between the program and Redis. Redis and its Go client are
  not part of the repository: the commands the adapter calls are the fields of a record
  \<open>redis_client\<close> over an environment state \<open>'e\<close>, a parameter of every operation. A nil
  store or a store with a nil client is \<open>None\<close>. The theory shows which calls reach Redis,
  that what \<open>AppendBid\<close> writes is what \<open>parseMessage\<close> reads back, and what time a stream ID
  stands for.
\<close>

section \<open>Data\<close>

record BidIngress =
  bi_AuctionID :: string
  bi_BidderID :: string
  bi_Amount :: int64
  bi_IdempotencyKey :: string
  bi_CorrelationID :: string

record BidStreamEntry = BidIngress +
  se_ID :: string

text \<open>
  A value of a \<open>map[string]any\<close>: a string, a byte slice, an \<open>int64\<close>, or a value of another
  dynamic type, given by the text \<open>fmt.Sprint\<close> prints for it.
\<close>

datatype field_value = FString string | FBytes bytes | FInt64 int64 | FOther string

record XMessage =
  xm_ID :: string
  xm_Values :: "string \<rightharpoonup> field_value"

section \<open>The Redis client the program relies on\<close>

record 'e redis_client =
  xadd :: "string \<Rightarrow> string \<Rightarrow> (string \<rightharpoonup> field_value) \<Rightarrow> 'e \<Rightarrow> string result \<times> 'e"
  xgroup_create_mkstream :: "string \<Rightarrow> string \<Rightarrow> string \<Rightarrow> 'e \<Rightarrow> go_error option \<times> 'e"
  xreadgroup :: "string \<Rightarrow> string \<Rightarrow> string list \<Rightarrow> int64 \<Rightarrow> duration \<Rightarrow> 'e \<Rightarrow>
    (string \<times> XMessage list) list result \<times> 'e"
  xack :: "string \<Rightarrow> string \<Rightarrow> string list \<Rightarrow> 'e \<Rightarrow> go_error option \<times> 'e"
  xautoclaim :: "string \<Rightarrow> string \<Rightarrow> string \<Rightarrow> duration \<Rightarrow> string \<Rightarrow> int64 \<Rightarrow> 'e \<Rightarrow>
    (XMessage list \<times> string) result \<times> 'e"
  xrange :: "string \<Rightarrow> string \<Rightarrow> string \<Rightarrow> 'e \<Rightarrow> XMessage list result \<times> 'e"
  redis_del :: "string \<Rightarrow> 'e \<Rightarrow> go_error option \<times> 'e"
  redis_ping :: "'e \<Rightarrow> go_error option \<times> 'e"
  redis_publish :: "string \<Rightarrow> bytes \<Rightarrow> 'e \<Rightarrow> go_error option \<times> 'e"

type_synonym 'e StreamStore = "'e redis_client option"

definition NewStreamStore :: "'e redis_client option \<Rightarrow> 'e StreamStore" where
  "NewStreamStore client = client"

definition StreamKey :: "string \<Rightarrow> string" where
  "StreamKey auctionID = ''auction:'' @ auctionID @ '':bids''"

definition not_configured :: go_error where
  "not_configured = ErrNew ''Redis Stream store is not configured''"

section \<open>Operations of the stream store\<close>

definition Ping :: "'e StreamStore \<Rightarrow> 'e \<Rightarrow> go_error option \<times> 'e" where
  "Ping s e =
     (case s of
        None \<Rightarrow> (Some not_configured, e)
      | Some c \<Rightarrow>
          (case redis_ping c e of
             (Some err, e') \<Rightarrow> (Some (ErrWrap ''ping Redis'' err), e')
           | (None, e') \<Rightarrow> (None, e')))"

text \<open>The field map of one XADD.\<close>

definition bid_values :: "BidIngress \<Rightarrow> (string \<rightharpoonup> field_value)" where
  "bid_values bid =
     [''auction_id'' \<mapsto> FString (bi_AuctionID bid),
      ''bidder_id'' \<mapsto> FString (bi_BidderID bid),
      ''amount'' \<mapsto> FInt64 (bi_Amount bid),
      ''idempotency_key'' \<mapsto> FString (bi_IdempotencyKey bid),
      ''correlation_id'' \<mapsto> FString (bi_CorrelationID bid)]"

definition AppendBid :: "'e StreamStore \<Rightarrow> BidIngress \<Rightarrow> 'e \<Rightarrow> string result \<times> 'e" where
  "AppendBid s bid e =
     (case s of
        None \<Rightarrow> (Inl not_configured, e)
      | Some c \<Rightarrow>
          if bi_AuctionID bid = [] then (Inl (ErrNew ''auction ID is required''), e)
          else if bi_BidderID bid = [] then (Inl (ErrNew ''bidder ID is required''), e)
          else if bi_Amount bid \<le>s 0 then (Inl (ErrNew ''bid amount must be positive''), e)
          else if bi_IdempotencyKey bid = [] then
            (Inl (ErrNew ''idempotency key is required''), e)
          else if bi_CorrelationID bid = [] then
            (Inl (ErrNew ''correlation ID is required''), e)
          else
            (case xadd c (StreamKey (bi_AuctionID bid)) ''*'' (bid_values bid) e of
               (Inl err, e') \<Rightarrow> (Inl (ErrWrap ''append bid to Redis Stream'' err), e')
             | (Inr streamID, e') \<Rightarrow> (Inr streamID, e')))"

definition EnsureConsumerGroup ::
  "'e StreamStore \<Rightarrow> string \<Rightarrow> string \<Rightarrow> 'e \<Rightarrow> go_error option \<times> 'e"
where
  "EnsureConsumerGroup s auctionID grp e =
     (case s of
        None \<Rightarrow> (Some not_configured, e)
      | Some c \<Rightarrow>
          if auctionID = [] then (Some (ErrNew ''auction ID is required''), e)
          else if grp = [] then (Some (ErrNew ''consumer group is required''), e)
          else
            (case xgroup_create_mkstream c (StreamKey auctionID) grp ''0'' e of
               (None, e') \<Rightarrow> (None, e')
             | (Some err, e') \<Rightarrow>
                 if contains_text (error_text err) ''BUSYGROUP'' then (None, e')
                 else (Some (ErrWrap ''create Redis consumer group'' err), e')))"

section \<open>Messages\<close>

definition fieldString :: "(string \<rightharpoonup> field_value) \<Rightarrow> string \<Rightarrow> string result" where
  "fieldString values key =
     (case values key of
        None \<Rightarrow> Inl (ErrNew ''stream entry is missing field'')
      | Some (FString s) \<Rightarrow> Inr s
      | Some (FBytes b) \<Rightarrow> Inr b
      | Some (FInt64 a) \<Rightarrow> Inr (sprint_int64 a)
      | Some (FOther s) \<Rightarrow> Inr s)"

definition parseMessage :: "XMessage \<Rightarrow> BidStreamEntry result" where
  "parseMessage m =
     (if xm_ID m = [] then Inl (ErrNew ''Redis Stream entry ID is missing'')
      else
        (case fieldString (xm_Values m) ''auction_id'' of
           Inl err \<Rightarrow> Inl err
         | Inr auctionID \<Rightarrow>
        (case fieldString (xm_Values m) ''bidder_id'' of
           Inl err \<Rightarrow> Inl err
         | Inr bidderID \<Rightarrow>
        (case fieldString (xm_Values m) ''amount'' of
           Inl err \<Rightarrow> Inl err
         | Inr amountText \<Rightarrow>
        (case ParseInt amountText of
           Inl err \<Rightarrow> Inl (ErrWrap ''parse amount'' err)
         | Inr amount \<Rightarrow>
        (case fieldString (xm_Values m) ''idempotency_key'' of
           Inl err \<Rightarrow> Inl err
         | Inr idempotencyKey \<Rightarrow>
        (case fieldString (xm_Values m) ''correlation_id'' of
           Inl err \<Rightarrow> Inl err
         | Inr correlationID \<Rightarrow>
             Inr \<lparr> bi_AuctionID = auctionID, bi_BidderID = bidderID, bi_Amount = amount,
                   bi_IdempotencyKey = idempotencyKey, bi_CorrelationID = correlationID,
                   se_ID = xm_ID m \<rparr>)))))))"

text \<open>
  The loop of \<open>ReadGroup\<close>, \<open>Range\<close> (here \<open>RangeEntries\<close>) and \<open>AutoClaimPending\<close>: entries are appended until a
  message does not parse, which makes the whole call fail with that message's error.
\<close>

fun parse_messages :: "string \<Rightarrow> BidStreamEntry list \<Rightarrow> XMessage list \<Rightarrow> BidStreamEntry list result"
where
  "parse_messages what entries [] = Inr entries"
| "parse_messages what entries (m # ms) =
     (case parseMessage m of
        Inl err \<Rightarrow> Inl (ErrWrap what err)
      | Inr entry \<Rightarrow> parse_messages what (entries @ [entry]) ms)"

fun parse_streams ::
  "BidStreamEntry list \<Rightarrow> (string \<times> XMessage list) list \<Rightarrow> BidStreamEntry list result"
where
  "parse_streams entries [] = Inr entries"
| "parse_streams entries ((_, ms) # streams) =
     (case parse_messages ''parse Redis Stream entry'' entries ms of
        Inl err \<Rightarrow> Inl err
      | Inr entries' \<Rightarrow> parse_streams entries' streams)"

section \<open>Reading, acknowledging, claiming\<close>

definition ReadGroup ::
  "'e StreamStore \<Rightarrow> string \<Rightarrow> string \<Rightarrow> string \<Rightarrow> int64 \<Rightarrow> duration \<Rightarrow> 'e \<Rightarrow>
     BidStreamEntry list result \<times> 'e"
where
  "ReadGroup s auctionID grp consumer count block e =
     (case s of
        None \<Rightarrow> (Inl not_configured, e)
      | Some c \<Rightarrow>
          if auctionID = [] then (Inl (ErrNew ''auction ID is required''), e)
          else if grp = [] then (Inl (ErrNew ''consumer group is required''), e)
          else if consumer = [] then (Inl (ErrNew ''consumer name is required''), e)
          else if count \<le>s 0 then (Inl (ErrNew ''XREADGROUP count must be positive''), e)
          else if block < 0 then
            (Inl (ErrNew ''XREADGROUP block duration cannot be negative''), e)
          else
            (case xreadgroup c grp consumer [StreamKey auctionID, ''>''] count block e of
               (Inl err, e') \<Rightarrow>
                 if err = ErrRedisNil then (Inr [], e')
                 else (Inl (ErrWrap ''read Redis consumer group'' err), e')
             | (Inr streams, e') \<Rightarrow> (parse_streams [] streams, e')))"

definition Ack :: "'e StreamStore \<Rightarrow> string \<Rightarrow> string \<Rightarrow> string list \<Rightarrow> 'e \<Rightarrow> go_error option \<times> 'e"
where
  "Ack s auctionID grp entryIDs e =
     (case s of
        None \<Rightarrow> (Some not_configured, e)
      | Some c \<Rightarrow>
          if auctionID = [] then (Some (ErrNew ''auction ID is required''), e)
          else if grp = [] then (Some (ErrNew ''consumer group is required''), e)
          else if entryIDs = [] then (None, e)
          else
            (case xack c (StreamKey auctionID) grp entryIDs e of
               (Some err, e') \<Rightarrow>
                 (Some (ErrWrap ''acknowledge Redis Stream entries'' err), e')
             | (None, e') \<Rightarrow> (None, e')))"

definition RangeEntries :: "'e StreamStore \<Rightarrow> string \<Rightarrow> 'e \<Rightarrow> BidStreamEntry list result \<times> 'e" where
  "RangeEntries s auctionID e =
     (case s of
        None \<Rightarrow> (Inl not_configured, e)
      | Some c \<Rightarrow>
          if auctionID = [] then (Inl (ErrNew ''auction ID is required''), e)
          else
            (case xrange c (StreamKey auctionID) ''-'' ''+'' e of
               (Inl err, e') \<Rightarrow> (Inl (ErrWrap ''read full Redis Stream'' err), e')
             | (Inr ms, e') \<Rightarrow> (parse_messages ''parse Redis Stream entry'' [] ms, e')))"

definition DeleteStream :: "'e StreamStore \<Rightarrow> string \<Rightarrow> 'e \<Rightarrow> go_error option \<times> 'e" where
  "DeleteStream s auctionID e =
     (case s of
        None \<Rightarrow> (Some not_configured, e)
      | Some c \<Rightarrow>
          if auctionID = [] then (Some (ErrNew ''auction ID is required''), e)
          else
            (case redis_del c (StreamKey auctionID) e of
               (Some err, e') \<Rightarrow> (Some (ErrWrap ''delete Redis Stream'' err), e')
             | (None, e') \<Rightarrow> (None, e')))"

text \<open>
  \<open>AutoClaimPending\<close> alone does not test for a missing client: with one, it dereferences a
  nil pointer, which panics.
\<close>

definition AutoClaimPending ::
  "'e StreamStore \<Rightarrow> string \<Rightarrow> string \<Rightarrow> string \<Rightarrow> duration \<Rightarrow> string \<Rightarrow> int64 \<Rightarrow> 'e \<Rightarrow>
     (BidStreamEntry list \<times> string) result \<times> 'e"
where
  "AutoClaimPending s auctionID grp consumer minIdle start count e =
     (if auctionID = [] then (Inl (ErrNew ''auction ID is required for XAUTOCLAIM''), e)
      else if grp = [] then
        (Inl (ErrNew ''consumer group is required for XAUTOCLAIM''), e)
      else if consumer = [] then
        (Inl (ErrNew ''consumer name is required for XAUTOCLAIM''), e)
      else if minIdle < 0 then (Inl (ErrNew ''minimum idle time cannot be negative''), e)
      else if count \<le>s 0 then (Inl (ErrNew ''XAUTOCLAIM count must be positive''), e)
      else
        (let start' = (if start = [] then ''0-0'' else start) in
         case s of
           None \<Rightarrow> (Inl (Panicked ''nil pointer dereference''), e)
         | Some c \<Rightarrow>
             (case xautoclaim c (StreamKey auctionID) grp consumer minIdle start' count e of
                (Inl err, e') \<Rightarrow> (Inl (ErrWrap ''XAUTOCLAIM stream'' err), e')
              | (Inr (ms, nextStart), e') \<Rightarrow>
                  (case parse_messages ''parse claimed Redis entry'' [] ms of
                     Inl err \<Rightarrow> (Inl err, e')
                   | Inr entries \<Rightarrow> (Inr (entries, nextStart), e')))))"

section \<open>Publishing to a channel\<close>

type_synonym 'e PubSubPublisher = "'e redis_client option"

definition Publish :: "'e PubSubPublisher \<Rightarrow> string \<Rightarrow> bytes \<Rightarrow> 'e \<Rightarrow> go_error option \<times> 'e" where
  "Publish p channel message e =
     (case p of
        None \<Rightarrow> (Some (ErrNew ''Redis Pub/Sub publisher is not configured''), e)
      | Some c \<Rightarrow>
          if channel = [] then (Some (ErrNew ''Redis Pub/Sub channel is required''), e)
          else if message = [] then (Some (ErrNew ''Redis Pub/Sub message is empty''), e)
          else
            (case redis_publish c channel message e of
               (Some err, e') \<Rightarrow> (Some (ErrWrap ''publish Redis message'' err), e')
             | (None, e') \<Rightarrow> (None, e')))"

section \<open>The time of a stream entry\<close>

definition StreamEntryTime :: "string \<Rightarrow> time result" where
  "StreamEntryTime streamID =
     (case split_n2 CHR ''-'' streamID of
        [ms_text, seq_text] \<Rightarrow>
          if ms_text = [] \<or> seq_text = [] then Inl (ErrNew ''invalid Redis Stream ID'')
          else
            (case ParseInt ms_text of
               Inl err \<Rightarrow> Inl (ErrWrap ''parse Redis Stream timestamp'' err)
             | Inr milliseconds \<Rightarrow>
                 if milliseconds <s 0 then
                   Inl (ErrNew ''Redis Stream timestamp cannot be negative'')
                 else
                   (case ParseUint seq_text of
                      Inl err \<Rightarrow> Inl (ErrWrap ''parse Redis Stream sequence'' err)
                    | Inr _ \<Rightarrow> Inr (UnixMilli milliseconds)))
      | _ \<Rightarrow> Inl (ErrNew ''invalid Redis Stream ID''))"

section \<open>Lemmas\<close>

lemma fieldString_bid_values [simp]:
  "fieldString (bid_values b) ''auction_id'' = Inr (bi_AuctionID b)"
  "fieldString (bid_values b) ''bidder_id'' = Inr (bi_BidderID b)"
  "fieldString (bid_values b) ''amount'' = Inr (sprint_int64 (bi_Amount b))"
  "fieldString (bid_values b) ''idempotency_key'' = Inr (bi_IdempotencyKey b)"
  "fieldString (bid_values b) ''correlation_id'' = Inr (bi_CorrelationID b)"
  by (simp_all add: fieldString_def bid_values_def)

text \<open>The message loops are all-or-nothing.\<close>

definition parses :: "XMessage \<Rightarrow> bool" where
  "parses m \<longleftrightarrow> (case parseMessage m of Inl _ \<Rightarrow> False | Inr _ \<Rightarrow> True)"

definition entry_of :: "XMessage \<Rightarrow> BidStreamEntry" where
  "entry_of m = (case parseMessage m of Inr en \<Rightarrow> en | Inl _ \<Rightarrow> undefined)"

lemma parseMessage_ID: "parseMessage m = Inr en \<Longrightarrow> se_ID en = xm_ID m \<and> xm_ID m \<noteq> []"
  by (auto simp: parseMessage_def split: if_splits sum.splits)

lemma parse_messages_ok:
  "list_all parses ms \<Longrightarrow> parse_messages what es ms = Inr (es @ map entry_of ms)"
  by (induction ms arbitrary: es) (auto simp: parses_def entry_of_def split: sum.splits)

lemma parse_messages_bad:
  "\<not> list_all parses ms \<Longrightarrow> \<exists>err. parse_messages what es ms = Inl (ErrWrap what err)"
  by (induction ms arbitrary: es) (auto simp: parses_def split: sum.splits)

lemma parse_streams_ok:
  "list_all parses (concat (map snd ss)) \<Longrightarrow>
     parse_streams es ss = Inr (es @ map entry_of (concat (map snd ss)))"
  by (induction es ss rule: parse_streams.induct) (auto simp: parse_messages_ok)

lemma parse_streams_bad:
  "\<not> list_all parses (concat (map snd ss)) \<Longrightarrow>
     \<exists>err. parse_streams es ss = Inl (ErrWrap ''parse Redis Stream entry'' err)"
proof (induction es ss rule: parse_streams.induct)
  case (2 es k ms ss)
  show ?case
  proof (cases "list_all parses ms")
    case True
    with 2 show ?thesis by (simp add: parse_messages_ok)
  next
    case False
    then obtain err where "parse_messages ''parse Redis Stream entry'' es ms =
        Inl (ErrWrap ''parse Redis Stream entry'' err)"
      using parse_messages_bad by blast
    then show ?thesis by simp
  qed
qed simp

lemma map_entry_of_ID:
  "list_all parses ms \<Longrightarrow> map se_ID (map entry_of ms) = map xm_ID ms"
  by (induction ms) (auto simp: parses_def entry_of_def dest: parseMessage_ID split: sum.splits)

text \<open>A signed decimal without a minus sign is never negative.\<close>

lemma signed_of_False_nonneg: "signed_of False r = Inr a \<Longrightarrow> 0 \<le> sint a"
  by (auto simp: signed_of_def sint64_of_nat split: sum.splits if_splits)

lemma ParseInt_no_minus:
  "CHR ''-'' \<notin> set s \<Longrightarrow> ParseInt s = Inr a \<Longrightarrow> 0 \<le> sint a"
  by (auto simp: ParseInt_def split: list.splits if_splits dest: signed_of_False_nonneg)

lemma StreamEntryTime_join:
  assumes "CHR ''-'' \<notin> set a" and "a \<noteq> []" and "b \<noteq> []"
  shows "StreamEntryTime (a @ CHR ''-'' # b) =
    (case ParseInt a of
       Inl err \<Rightarrow> Inl (ErrWrap ''parse Redis Stream timestamp'' err)
     | Inr ms \<Rightarrow>
         (case ParseUint b of
            Inl err \<Rightarrow> Inl (ErrWrap ''parse Redis Stream sequence'' err)
          | Inr _ \<Rightarrow> Inr (UnixMilli ms)))"
  using assms ParseInt_no_minus [OF assms(1)]
  by (auto simp: StreamEntryTime_def split_n2_join word_sless_alt not_less
      simp del: split_n2.simps split: sum.splits)

lemma StreamEntryTime_cases:
  "(\<exists>a b. s = a @ CHR ''-'' # b \<and> CHR ''-'' \<notin> set a \<and> a \<noteq> [] \<and> b \<noteq> []) \<or>
   StreamEntryTime s = Inl (ErrNew ''invalid Redis Stream ID'')"
proof (cases "\<exists>a b. split_n2 CHR ''-'' s = [a, b]")
  case True
  then obtain a b where ab: "split_n2 CHR ''-'' s = [a, b]" by auto
  then have "s = a @ CHR ''-'' # b \<and> CHR ''-'' \<notin> set a" by (rule split_n2_two)
  moreover have "a = [] \<or> b = [] \<Longrightarrow> StreamEntryTime s = Inl (ErrNew ''invalid Redis Stream ID'')"
    using ab by (auto simp: StreamEntryTime_def simp del: split_n2.simps)
  ultimately show ?thesis by blast
next
  case False
  then show ?thesis
    by (simp add: StreamEntryTime_def del: split_n2.simps split: list.split) 
qed

lemma StreamEntryTime_Inr:
  assumes "StreamEntryTime s = Inr t"
  obtains a b ms n where "s = a @ CHR ''-'' # b" and "CHR ''-'' \<notin> set a" and "a \<noteq> []" and "b \<noteq> []"
    and "ParseInt a = Inr ms" and "ParseUint b = Inr n" and "t = UnixMilli ms" and "0 \<le> sint ms"
proof -
  from assms StreamEntryTime_cases [of s] obtain a b where
    s: "s = a @ CHR ''-'' # b" and a: "CHR ''-'' \<notin> set a" "a \<noteq> []" and b: "b \<noteq> []"
    by auto
  with assms obtain ms n where "ParseInt a = Inr ms" "ParseUint b = Inr n" "t = UnixMilli ms"
    by (auto simp: StreamEntryTime_join split: sum.splits)
  with s a b show ?thesis using ParseInt_no_minus that by blast
qed

section \<open>Sample\<close>

definition sample_bid :: BidIngress where
  "sample_bid = \<lparr> bi_AuctionID = ''A'', bi_BidderID = ''B'', bi_Amount = 120,
     bi_IdempotencyKey = ''K'', bi_CorrelationID = ''C'' \<rparr>"

definition sample_values :: "string \<rightharpoonup> field_value" where
  "sample_values = [''auction_id'' \<mapsto> FString ''A'', ''bidder_id'' \<mapsto> FString ''B'',
     ''amount'' \<mapsto> FString ''120'', ''idempotency_key'' \<mapsto> FString ''K'',
     ''correlation_id'' \<mapsto> FString ''C'']"

text \<open>A Redis with one message to read and a list of acknowledged IDs.\<close>

definition one_message_client :: "string list redis_client" where
  "one_message_client =
     \<lparr> xadd = (\<lambda>k i v e. (Inr ''5-0'', e)), xgroup_create_mkstream = (\<lambda>k g s e. (None, e)),
       xreadgroup = (\<lambda>g c ks n b e. (Inr [(hd ks, [\<lparr> xm_ID = ''5-0'', xm_Values = sample_values \<rparr>])], e)),
       xack = (\<lambda>k g ids e. (None, e @ ids)),
       xautoclaim = (\<lambda>k g c m s n e. (Inr ([], ''0-0''), e)), xrange = (\<lambda>k a b e. (Inr [], e)),
       redis_del = (\<lambda>k e. (None, e)), redis_ping = (\<lambda>e. (None, e)),
       redis_publish = (\<lambda>ch m e. (None, e)) \<rparr>"

definition sample_entry :: BidStreamEntry where
  "sample_entry = BidIngress.extend sample_bid \<lparr> se_ID = ''5-0'' \<rparr>"

lemma sample_message_parses:
  "parseMessage \<lparr> xm_ID = ''5-0'', xm_Values = sample_values \<rparr> = Inr sample_entry"
proof -
  have "ParseInt ''120'' = Inr (120 :: int64)"
    using ParseInt_sprint [of 120] by (simp add: sprint_int64_def decimal.simps go_std)
  then show ?thesis
    by (simp add: parseMessage_def fieldString_def sample_values_def sample_entry_def sample_bid_def
        BidIngress.defs)
qed

section \<open>Properties\<close>

text \<open>
  C29. Round trip of a bid through the stream: a message that carries, for each of the five
  fields, the text of the value \<open>AppendBid\<close> wrote (Redis hands every value back as a string)
  is parsed to exactly the bid that was appended, under the ID of the message. The amount
  survives the decimal text for every 64-bit value.
\<close>

theorem parseMessage_of_appended_bid:
  assumes "mid \<noteq> []"
    and "\<And>key. key \<in> dom (bid_values bid) \<Longrightarrow>
      fieldString vals key = fieldString (bid_values bid) key"
  shows "parseMessage \<lparr> xm_ID = mid, xm_Values = vals \<rparr> =
    Inr (BidIngress.extend bid \<lparr> se_ID = mid \<rparr>)"
proof -
  have "\<And>key. key \<in> {''auction_id'', ''bidder_id'', ''amount'', ''idempotency_key'', ''correlation_id''}
      \<Longrightarrow> fieldString vals key = fieldString (bid_values bid) key"
    using assms(2) by (auto simp: bid_values_def)
  then show ?thesis
    using assms(1) by (simp add: parseMessage_def ParseInt_sprint BidIngress.defs)
qed

lemma parseMessage_of_appended_bid_witness:
  "parseMessage \<lparr> xm_ID = ''5-0'', xm_Values = sample_values \<rparr> =
     Inr (BidIngress.extend sample_bid \<lparr> se_ID = ''5-0'' \<rparr>)"
proof (rule parseMessage_of_appended_bid)
  show "''5-0'' \<noteq> []" by simp
  have "sprint_int64 120 = ''120''"
    by (simp add: sprint_int64_def decimal.simps go_std)
  then show "fieldString sample_values key = fieldString (bid_values sample_bid) key"
    if "key \<in> dom (bid_values sample_bid)" for key
    using that by (auto simp: fieldString_def bid_values_def sample_bid_def sample_values_def)
qed

text \<open>
  C30. \<open>ReadGroup\<close> is all-or-nothing over the messages Redis has delivered. When every message
  parses it returns one entry per message, in the order of delivery; when one does not, the
  whole call fails although all of the messages have been delivered: none of them reaches the
  caller, and they stay pending in the group.
\<close>

theorem ReadGroup_all_or_nothing:
  assumes "auctionID \<noteq> []" and "grp \<noteq> []" and "consumer \<noteq> []"
    and "0 <s count" and "0 \<le> block"
    and "xreadgroup c grp consumer [StreamKey auctionID, ''>''] count block e = (Inr streams, e')"
  shows "if list_all parses (concat (map snd streams))
    then ReadGroup (Some c) auctionID grp consumer count block e =
           (Inr (map entry_of (concat (map snd streams))), e') \<and>
         map se_ID (map entry_of (concat (map snd streams))) =
           map xm_ID (concat (map snd streams))
    else \<exists>err. ReadGroup (Some c) auctionID grp consumer count block e =
           (Inl (ErrWrap ''parse Redis Stream entry'' err), e')"
  using assms parse_streams_ok [of streams "[]"] parse_streams_bad [of streams "[]"]
  by (auto simp: ReadGroup_def word_sless_alt word_sle_eq not_le map_entry_of_ID
      simp del: map_map)

lemma ReadGroup_all_or_nothing_witness:
  "ReadGroup (Some one_message_client) ''A'' ''g'' ''c'' 20 2000000000 [] = (Inr [sample_entry], [])"
proof -
  have "xreadgroup one_message_client ''g'' ''c'' [StreamKey ''A'', ''>''] 20 2000000000 [] =
      (Inr [(StreamKey ''A'', [\<lparr> xm_ID = ''5-0'', xm_Values = sample_values \<rparr>])], [])"
    by (simp add: one_message_client_def)
  from ReadGroup_all_or_nothing [OF _ _ _ _ _ this] show ?thesis
    by (simp add: parses_def entry_of_def sample_message_parses word_sless_alt)
qed

text \<open>
  C34. The time of a stream entry: an ID \<open>ms-seq\<close> of decimal numbers within 63 and 64 bits
  stands for \<open>ms\<close> milliseconds, whatever \<open>seq\<close> is.
\<close>

theorem StreamEntryTime_of_ID:
  assumes "ms < 2 ^ 63" and "sq < 2 ^ 64"
  shows "StreamEntryTime (decimal ms @ CHR ''-'' # decimal sq) = Inr (int ms * 1000000)"
proof -
  have "sint (word_of_nat ms :: int64) = int ms" using assms(1) by (rule sint64_of_nat)
  with assms show ?thesis
    by (simp add: StreamEntryTime_join decimal_no_sign ParseInt_decimal ParseUint_decimal
        UnixMilli_def)
qed

lemma StreamEntryTime_of_ID_witness:
  "StreamEntryTime ''1752821000000-4'' = Inr (1752821000000 * 1000000)"
proof -
  have d: "decimal 1752821000000 = ''1752821000000''" "decimal 4 = ''4''"
    by (simp_all add: decimal.simps go_std)
  have "StreamEntryTime (decimal 1752821000000 @ CHR ''-'' # decimal 4) =
      Inr (int 1752821000000 * 1000000)"
    by (rule StreamEntryTime_of_ID) simp_all
  then show ?thesis by (simp add: d)
qed

text \<open>
  Every time \<open>StreamEntryTime\<close> returns is a whole number of milliseconds at or after the
  Unix epoch, never the zero time; in particular the test for a negative timestamp can not
  fire, because a minus sign in front ends the first component.
\<close>

theorem StreamEntryTime_range:
  "case StreamEntryTime s of
     Inr t \<Rightarrow> 0 \<le> t \<and> t < 2 ^ 63 * 1000000 \<and> t mod 1000000 = 0 \<and> \<not> IsZero t
   | Inl err \<Rightarrow> err \<noteq> ErrNew ''Redis Stream timestamp cannot be negative''"
proof (cases "StreamEntryTime s")
  case (Inr t)
  then obtain ms where t: "t = UnixMilli ms" and ms: "0 \<le> sint ms"
    by (auto elim: StreamEntryTime_Inr)
  with Inr sint64_bounds [of ms] show ?thesis
    by (simp add: UnixMilli_not_zero) (simp add: UnixMilli_def)
next
  case (Inl err)
  then show ?thesis
    using StreamEntryTime_cases [of s] by (auto simp: StreamEntryTime_join split: sum.splits)
qed

text \<open>
  A store without a client: every operation reports "not configured" and leaves the
  environment alone, except \<open>AutoClaimPending\<close>, which has no such test and panics on valid
  arguments.
\<close>

theorem unconfigured_store:
  assumes "a \<noteq> []" and "g \<noteq> []" and "cons \<noteq> []" and "0 \<le> idle" and "0 <s n"
  shows "Ping None e = (Some not_configured, e) \<and>
    AppendBid None bid e = (Inl not_configured, e) \<and>
    EnsureConsumerGroup None a g e = (Some not_configured, e) \<and>
    ReadGroup None a g cons n block e = (Inl not_configured, e) \<and>
    Ack None a g ids e = (Some not_configured, e) \<and>
    RangeEntries None a e = (Inl not_configured, e) \<and>
    DeleteStream None a e = (Some not_configured, e) \<and>
    AutoClaimPending None a g cons idle start n e =
      (Inl (Panicked ''nil pointer dereference''), e)"
  using assms
  by (simp add: Ping_def AppendBid_def EnsureConsumerGroup_def ReadGroup_def Ack_def
      RangeEntries_def DeleteStream_def AutoClaimPending_def word_sless_alt word_sle_eq)

lemma unconfigured_store_witness:
  "Ack None ''A'' ''g'' [''5-0''] () = (Some not_configured, ()) \<and>
   AutoClaimPending None ''A'' ''g'' ''c'' 30 ''0-0'' 10 () =
     (Inl (Panicked ''nil pointer dereference''), ())"
  using unconfigured_store [of "''A''" "''g''" "''c''" 30 10 "()"]
  by (simp add: word_sless_alt)

end
