(* ===== verification/Bid_Service.thy ===== *)
theory Bid_Service
  imports Stream_Store
begin

text \<open>
  \<^verbatim>\<open>src/internal/engine/service.go\<close>: accepting a bid into the stream. \<open>uuid.Parse\<close> and
  \<open>uuid.NewString\<close> belong to the uuid package: the arguments \<open>uuid_Parse\<close> and \<open>NewString\<close>.
\<close>

section \<open>Operations\<close>

type_synonym 'e Service = "'e StreamStore"

definition NewService :: "'e StreamStore \<Rightarrow> 'e Service" where
  "NewService streams = streams"

definition reserveBid ::
  "('e \<Rightarrow> string \<times> 'e) \<Rightarrow> 'e Service \<Rightarrow> string \<Rightarrow> string \<Rightarrow> int64 \<Rightarrow> string \<Rightarrow> 'e \<Rightarrow>
     string result \<times> 'e"
where
  "reserveBid NewString s auctionID bidderID amount idempotencyKey e =
     (if auctionID = [] then (Inl (ErrNew ''auction ID is required''), e)
      else if bidderID = [] then (Inl (ErrNew ''bidder ID is required''), e)
      else if amount \<le>s 0 then (Inl (ErrNew ''bid amount must be positive''), e)
      else if idempotencyKey = [] then (Inl (ErrNew ''idempotency key is required''), e)
      else
        (case NewString e of
           (correlationID, e1) \<Rightarrow>
             AppendBid s
               \<lparr> bi_AuctionID = auctionID, bi_BidderID = bidderID, bi_Amount = amount,
                 bi_IdempotencyKey = idempotencyKey, bi_CorrelationID = correlationID \<rparr> e1))"

definition ReserveBid ::
  "('e \<Rightarrow> string \<times> 'e) \<Rightarrow> 'e Service \<Rightarrow> string \<Rightarrow> string \<Rightarrow> int64 \<Rightarrow> 'e \<Rightarrow> string result \<times> 'e"
where
  "ReserveBid NewString s auctionID bidderID amount e =
     (case NewString e of
        (idempotencyKey, e1) \<Rightarrow> reserveBid NewString s auctionID bidderID amount idempotencyKey e1)"

definition ReserveBidWithIdempotencyKey ::
  "(string \<Rightarrow> uuid result) \<Rightarrow> ('e \<Rightarrow> string \<times> 'e) \<Rightarrow> 'e Service \<Rightarrow> string \<Rightarrow> string \<Rightarrow> int64 \<Rightarrow>
     string \<Rightarrow> 'e \<Rightarrow> string result \<times> 'e"
where
  "ReserveBidWithIdempotencyKey uuid_Parse NewString s auctionID bidderID amount idempotencyKey e =
     (case uuid_Parse idempotencyKey of
        Inl err \<Rightarrow> (Inl (ErrWrap ''invalid idempotency key'' err), e)
      | Inr _ \<Rightarrow> reserveBid NewString s auctionID bidderID amount idempotencyKey e)"

section \<open>Lemmas\<close>

text \<open>What \<open>reserveBid\<close> asks for.\<close>

definition valid_request :: "string \<Rightarrow> string \<Rightarrow> int64 \<Rightarrow> string \<Rightarrow> bool" where
  "valid_request auctionID bidderID amount idempotencyKey \<longleftrightarrow>
     auctionID \<noteq> [] \<and> bidderID \<noteq> [] \<and> 0 < sint amount \<and> idempotencyKey \<noteq> []"

text \<open>The stream a bid goes to after it was accepted, and its fields.\<close>

definition reserve_fields ::
  "string \<Rightarrow> string \<Rightarrow> int64 \<Rightarrow> string \<Rightarrow> string \<Rightarrow> (string \<rightharpoonup> field_value)"
where
  "reserve_fields auctionID bidderID amount idempotencyKey correlationID =
     [''auction_id'' \<mapsto> FString auctionID, ''bidder_id'' \<mapsto> FString bidderID,
      ''amount'' \<mapsto> FInt64 amount, ''idempotency_key'' \<mapsto> FString idempotencyKey,
      ''correlation_id'' \<mapsto> FString correlationID]"

lemma reserveBid_run:
  assumes "NewString e = (corr, e1)" and "corr \<noteq> []"
  shows "reserveBid NewString (Some c) a b n k e =
    (if valid_request a b n k
     then (case xadd c (''auction:'' @ a @ '':bids'') ''*'' (reserve_fields a b n k corr) e1 of
             (Inl err, e2) \<Rightarrow> (Inl (ErrWrap ''append bid to Redis Stream'' err), e2)
           | (Inr streamID, e2) \<Rightarrow> (Inr streamID, e2))
     else (Inl (ErrNew
       (if a = [] then ''auction ID is required''
        else if b = [] then ''bidder ID is required''
        else if sint n \<le> 0 then ''bid amount must be positive''
        else ''idempotency key is required'')), e))"
  using assms
  by (auto simp: reserveBid_def AppendBid_def valid_request_def word_sle_eq not_le StreamKey_def
      bid_values_def reserve_fields_def)

section \<open>Properties\<close>

text \<open>
  C35. A request reaches Redis exactly when it is complete, and then as one XADD to the stream of
  its auction that carries its five fields unchanged, with a fresh correlation ID; a request
  that is not complete is refused with the first thing missing and touches nothing.
\<close>

theorem reserveBid_appends_exactly:
  assumes "NewString e = (corr, e1)" and "corr \<noteq> []"
  shows "reserveBid NewString (Some c) a b n k e =
    (if valid_request a b n k
     then (case xadd c (''auction:'' @ a @ '':bids'') ''*'' (reserve_fields a b n k corr) e1 of
             (Inl err, e2) \<Rightarrow> (Inl (ErrWrap ''append bid to Redis Stream'' err), e2)
           | (Inr streamID, e2) \<Rightarrow> (Inr streamID, e2))
     else (Inl (ErrNew
       (if a = [] then ''auction ID is required''
        else if b = [] then ''bidder ID is required''
        else if sint n \<le> 0 then ''bid amount must be positive''
        else ''idempotency key is required'')), e))"
  using assms by (rule reserveBid_run)

definition echo_client :: "unit redis_client" where
  "echo_client =
     \<lparr> xadd = (\<lambda>k i v e. (Inr ''5-0'', e)), xgroup_create_mkstream = (\<lambda>k g s e. (None, e)),
       xreadgroup = (\<lambda>g c ks n b e. (Inr [], e)), xack = (\<lambda>k g ids e. (None, e)),
       xautoclaim = (\<lambda>k g c m s n e. (Inr ([], ''0-0''), e)), xrange = (\<lambda>k a b e. (Inr [], e)),
       redis_del = (\<lambda>k e. (None, e)), redis_ping = (\<lambda>e. (None, e)),
       redis_publish = (\<lambda>ch m e. (None, e)) \<rparr>"

lemma reserveBid_appends_exactly_witness:
  "reserveBid (\<lambda>e. (''c'', e)) (Some echo_client) ''A'' ''B'' (- 5) ''K'' () =
     (Inl (ErrNew ''bid amount must be positive''), ()) \<and>
   reserveBid (\<lambda>e. (''c'', e)) (Some echo_client) ''A'' ''B'' 5 ''K'' () = (Inr ''5-0'', ())"
  using reserveBid_appends_exactly [of "\<lambda>e. (''c'', e)" "()" "''c''" "()" echo_client "''A''" "''B''" "- 5" "''K''"]
    reserveBid_appends_exactly [of "\<lambda>e. (''c'', e)" "()" "''c''" "()" echo_client "''A''" "''B''" 5 "''K''"]
  by (simp add: valid_request_def echo_client_def)

end
