(* ===== verification/Bid_Validation.thy ===== *)
theory Bid_Validation
  imports Go_Std
begin

text \<open>
  \<^verbatim>\<open>src/internal/engine/bid_validation.go\<close>: the pure decision \<open>EvaluateBid\<close> on one bid
  against a snapshot of its auction, and \<open>Validate\<close>, which also reports a rejection to an
  event sink. The sink is an interface whose implementations are the callers': here a function
  on an environment state. Prices are 64-bit words; the lemmas show that the one addition of
  the decision never wraps.
\<close>

section \<open>Data\<close>

definition maxInt64 :: int64 where
  "maxInt64 = 9223372036854775807"

definition BidRejectedEventType :: string where
  "BidRejectedEventType = ''bid_rejected''"

datatype AuctionState =
    AuctionStateDraft
  | AuctionStateScheduled
  | AuctionStateOpen
  | AuctionStatePaused
  | AuctionStateClosing
  | AuctionStateClosed
  | AuctionStateCancelled
  | AuctionStateSettled
  | AuctionStateOther string

datatype BidRejectionReason =
    RejectionAuctionIDRequired
  | RejectionBidderIDRequired
  | RejectionIdempotencyKeyRequired
  | RejectionInvalidAmount
  | RejectionSubmittedAtRequired
  | RejectionAuctionNotFound
  | RejectionEffectiveCloseTimeRequired
  | RejectionAuctionNotOpen
  | RejectionBidderNotRegistered
  | RejectionBidAtOrAfterClose
  | RejectionInvalidCurrentPrice
  | RejectionInvalidIncrement
  | RejectionPricingOverflow
  | RejectionBidBelowMinimum

record BidAttempt =
  at_AuctionID :: string
  at_BidderID :: string
  at_Amount :: int64
  at_IdempotencyKey :: string
  at_CorrelationID :: string
  at_StreamEntryID :: string
  at_SubmittedAt :: time

record AuctionValidationSnapshot =
  au_Exists :: bool
  au_State :: AuctionState
  au_CurrentPrice :: int64
  au_Increment :: int64
  au_BidderRegistered :: bool
  au_EffectiveCloseTime :: time

record BidRejectedEvent =
  ev_EventType :: string
  ev_ReasonCode :: BidRejectionReason
  ev_AuctionID :: string
  ev_BidderID :: string
  ev_IdempotencyKey :: string
  ev_CorrelationID :: string
  ev_StreamEntryID :: string
  ev_AuctionState :: AuctionState
  ev_SubmittedAmount :: int64
  ev_CurrentPrice :: int64
  ev_Increment :: int64
  ev_RequiredMinimum :: int64
  ev_SubmittedAt :: time
  ev_EffectiveCloseTime :: time

record BidValidationResult =
  Accepted :: bool
  MinimumAmount :: int64
  Rejection :: "BidRejectedEvent option"

section \<open>The decision\<close>

text \<open>The closure \<open>reject\<close> of \<open>EvaluateBid\<close>.\<close>

definition reject_bid ::
  "BidAttempt \<Rightarrow> AuctionValidationSnapshot \<Rightarrow> BidRejectionReason \<Rightarrow> int64 \<Rightarrow> BidValidationResult"
where
  "reject_bid attempt auction reason minimumAmount =
     \<lparr> Accepted = False,
       MinimumAmount = minimumAmount,
       Rejection = Some
         \<lparr> ev_EventType = BidRejectedEventType,
           ev_ReasonCode = reason,
           ev_AuctionID = at_AuctionID attempt,
           ev_BidderID = at_BidderID attempt,
           ev_IdempotencyKey = at_IdempotencyKey attempt,
           ev_CorrelationID = at_CorrelationID attempt,
           ev_StreamEntryID = at_StreamEntryID attempt,
           ev_AuctionState = au_State auction,
           ev_SubmittedAmount = at_Amount attempt,
           ev_CurrentPrice = au_CurrentPrice auction,
           ev_Increment = au_Increment auction,
           ev_RequiredMinimum = minimumAmount,
           ev_SubmittedAt = at_SubmittedAt attempt,
           ev_EffectiveCloseTime = au_EffectiveCloseTime auction \<rparr> \<rparr>"

definition EvaluateBid ::
  "BidAttempt \<Rightarrow> AuctionValidationSnapshot \<Rightarrow> BidValidationResult"
where
  "EvaluateBid attempt auction =
     (if at_AuctionID attempt = [] then
        reject_bid attempt auction RejectionAuctionIDRequired 0
      else if at_BidderID attempt = [] then
        reject_bid attempt auction RejectionBidderIDRequired 0
      else if at_IdempotencyKey attempt = [] then
        reject_bid attempt auction RejectionIdempotencyKeyRequired 0
      else if at_Amount attempt \<le>s 0 then
        reject_bid attempt auction RejectionInvalidAmount 0
      else if IsZero (at_SubmittedAt attempt) then
        reject_bid attempt auction RejectionSubmittedAtRequired 0
      else if \<not> au_Exists auction then
        reject_bid attempt auction RejectionAuctionNotFound 0
      else if IsZero (au_EffectiveCloseTime auction) then
        reject_bid attempt auction RejectionEffectiveCloseTimeRequired 0
      else if au_State auction \<noteq> AuctionStateOpen then
        reject_bid attempt auction RejectionAuctionNotOpen 0
      else if \<not> au_BidderRegistered auction then
        reject_bid attempt auction RejectionBidderNotRegistered 0
      else if \<not> Before (at_SubmittedAt attempt) (au_EffectiveCloseTime auction) then
        reject_bid attempt auction RejectionBidAtOrAfterClose 0
      else if au_CurrentPrice auction <s 0 then
        reject_bid attempt auction RejectionInvalidCurrentPrice 0
      else if au_Increment auction \<le>s 0 then
        reject_bid attempt auction RejectionInvalidIncrement 0
      else if maxInt64 - au_Increment auction <s au_CurrentPrice auction then
        reject_bid attempt auction RejectionPricingOverflow 0
      else
        (let minimumAmount = au_CurrentPrice auction + au_Increment auction in
         if at_Amount attempt <s minimumAmount then
           reject_bid attempt auction RejectionBidBelowMinimum minimumAmount
         else
           \<lparr> Accepted = True, MinimumAmount = minimumAmount, Rejection = None \<rparr>))"

section \<open>The validator and its sink\<close>

type_synonym 'e event_sink = "BidRejectedEvent \<Rightarrow> 'e \<Rightarrow> go_error option \<times> 'e"

record 'e BidValidator =
  eventSink :: "'e event_sink"

text \<open>A nil interface value is \<open>None\<close>.\<close>

definition NewBidValidator :: "'e event_sink option \<Rightarrow> 'e BidValidator result" where
  "NewBidValidator sink =
     (case sink of
        None \<Rightarrow> Inl (ErrNew ''bid rejected event sink is required'')
      | Some s \<Rightarrow> Inr \<lparr> eventSink = s \<rparr>)"

definition Validate ::
  "'e BidValidator \<Rightarrow> BidAttempt \<Rightarrow> AuctionValidationSnapshot \<Rightarrow> 'e \<Rightarrow>
     (BidValidationResult \<times> go_error option) \<times> 'e"
where
  "Validate v attempt auction e =
     (let result = EvaluateBid attempt auction in
      case Rejection result of
        None \<Rightarrow> ((result, None), e)
      | Some event \<Rightarrow>
          (case eventSink v event e of
             (Some err, e') \<Rightarrow> ((result, Some (ErrWrap ''emit bid rejection event'' err)), e')
           | (None, e') \<Rightarrow> ((result, None), e')))"

section \<open>The pricing arithmetic\<close>

lemma sint_maxInt64: "sint maxInt64 = 2 ^ 63 - 1"
  by (simp add: maxInt64_def)

text \<open>The guard against overflow is exact: it fails only where the sum leaves 64 bits.\<close>

lemma overflow_guard_iff:
  fixes p i :: int64
  assumes "0 < sint i"
  shows "maxInt64 - i <s p \<longleftrightarrow> 2 ^ 63 - 1 < sint p + sint i"
proof -
  have "sint (maxInt64 - i) = sint maxInt64 - sint i"
    using assms sint64_bounds [of i] by (intro sint64_sub) (simp_all add: sint_maxInt64)
  then show ?thesis by (auto simp: word_sless_alt sint_maxInt64)
qed

lemma minimum_no_wrap:
  fixes p i :: int64
  assumes "0 \<le> sint p" and "0 < sint i" and "\<not> maxInt64 - i <s p"
  shows "sint (p + i) = sint p + sint i"
  using assms by (intro sint64_add) (simp_all add: overflow_guard_iff)

lemma reject_bid_simps [simp]:
  "\<not> Accepted (reject_bid a s r m)"
  "MinimumAmount (reject_bid a s r m) = m"
  "Rejection (reject_bid a s r m) \<noteq> None"
  "ev_ReasonCode (the (Rejection (reject_bid a s r m))) = r"
  "ev_RequiredMinimum (the (Rejection (reject_bid a s r m))) = m"
  by (simp_all add: reject_bid_def)

text \<open>
  The checks of \<open>EvaluateBid\<close> as a table over unbounded integers: what is violated, the
  reason reported, in the order in which the code looks.
\<close>

definition bid_checks ::
  "BidAttempt \<Rightarrow> AuctionValidationSnapshot \<Rightarrow> (bool \<times> BidRejectionReason) list"
where
  "bid_checks a s =
     [(at_AuctionID a = [], RejectionAuctionIDRequired),
      (at_BidderID a = [], RejectionBidderIDRequired),
      (at_IdempotencyKey a = [], RejectionIdempotencyKeyRequired),
      (sint (at_Amount a) \<le> 0, RejectionInvalidAmount),
      (at_SubmittedAt a = zero_time, RejectionSubmittedAtRequired),
      (\<not> au_Exists s, RejectionAuctionNotFound),
      (au_EffectiveCloseTime s = zero_time, RejectionEffectiveCloseTimeRequired),
      (au_State s \<noteq> AuctionStateOpen, RejectionAuctionNotOpen),
      (\<not> au_BidderRegistered s, RejectionBidderNotRegistered),
      (au_EffectiveCloseTime s \<le> at_SubmittedAt a, RejectionBidAtOrAfterClose),
      (sint (au_CurrentPrice s) < 0, RejectionInvalidCurrentPrice),
      (sint (au_Increment s) \<le> 0, RejectionInvalidIncrement),
      (2 ^ 63 \<le> sint (au_CurrentPrice s) + sint (au_Increment s), RejectionPricingOverflow),
      (sint (at_Amount a) < sint (au_CurrentPrice s) + sint (au_Increment s),
         RejectionBidBelowMinimum)]"

fun first_violation :: "(bool \<times> 'r) list \<Rightarrow> 'r option" where
  "first_violation [] = None"
| "first_violation ((violated, r) # cs) = (if violated then Some r else first_violation cs)"

definition bid_verdict ::
  "BidAttempt \<Rightarrow> AuctionValidationSnapshot \<Rightarrow> BidRejectionReason option"
where
  "bid_verdict a s = first_violation (bid_checks a s)"

text \<open>
  The three pricing tests of the code, on words, are the table's tests on integers, provided
  the two tests before them have passed.
\<close>

lemma minimum_test_iff:
  fixes p i a :: int64
  assumes "0 \<le> sint p" and "0 < sint i" and "sint p + sint i < 2 ^ 63"
  shows "a <s p + i \<longleftrightarrow> sint a < sint p + sint i"
proof -
  have "sint (p + i) = sint p + sint i"
    using assms by (intro minimum_no_wrap) (simp_all add: overflow_guard_iff)
  then show ?thesis by (simp add: word_sless_alt)
qed

lemma EvaluateBid_verdict_aux:
  "EvaluateBid a s =
     (case bid_verdict a s of
        None \<Rightarrow> \<lparr> Accepted = True,
          MinimumAmount = au_CurrentPrice s + au_Increment s, Rejection = None \<rparr>
      | Some r \<Rightarrow> reject_bid a s r
          (if r = RejectionBidBelowMinimum then au_CurrentPrice s + au_Increment s else 0))"
proof -
  let ?p = "au_CurrentPrice s" and ?i = "au_Increment s"
  note tests = EvaluateBid_def bid_verdict_def bid_checks_def Let_def IsZero_def Before_def
    word_sle_eq [of "at_Amount a" 0] word_sle_eq [of ?i 0] word_sless_alt [of ?p 0]
  show ?thesis
  proof (cases "0 \<le> sint ?p \<and> 0 < sint ?i")
    case True
    then show ?thesis
      by (cases "sint ?p + sint ?i < 2 ^ 63")
        (simp_all add: tests overflow_guard_iff minimum_test_iff not_less)
  next
    case False
    then show ?thesis by (auto simp: tests not_less not_le)
  qed
qed

lemma bid_verdict_None_iff:
  "bid_verdict a s = None \<longleftrightarrow>
     at_AuctionID a \<noteq> [] \<and> at_BidderID a \<noteq> [] \<and> at_IdempotencyKey a \<noteq> [] \<and>
     0 < sint (at_Amount a) \<and> at_SubmittedAt a \<noteq> zero_time \<and>
     au_Exists s \<and> au_EffectiveCloseTime s \<noteq> zero_time \<and> au_State s = AuctionStateOpen \<and>
     au_BidderRegistered s \<and> at_SubmittedAt a < au_EffectiveCloseTime s \<and>
     0 \<le> sint (au_CurrentPrice s) \<and> 0 < sint (au_Increment s) \<and>
     sint (au_CurrentPrice s) + sint (au_Increment s) \<le> sint (at_Amount a)"
proof -
  have "sint (au_CurrentPrice s) + sint (au_Increment s) \<le> sint (at_Amount a) \<Longrightarrow>
      sint (au_CurrentPrice s) + sint (au_Increment s) < 2 ^ 63"
    using sint64_bounds(2) [of "at_Amount a"] by linarith
  then show ?thesis
    by (auto simp: bid_verdict_def bid_checks_def not_less not_le)
qed

lemma Accepted_iff_verdict: "Accepted (EvaluateBid a s) \<longleftrightarrow> bid_verdict a s = None"
  by (simp add: EvaluateBid_verdict_aux split: option.split)

section \<open>A series of bids\<close>

text \<open>
  Bids judged one after another, each against the amount of the last accepted one: the amounts
  that were accepted.
\<close>

fun accepted_amounts :: "AuctionValidationSnapshot \<Rightarrow> BidAttempt list \<Rightarrow> int64 list" where
  "accepted_amounts s [] = []"
| "accepted_amounts s (a # as) =
     (if Accepted (EvaluateBid a s)
      then at_Amount a # accepted_amounts (s\<lparr>au_CurrentPrice := at_Amount a\<rparr>) as
      else accepted_amounts s as)"

lemma accepted_amounts_above:
  "x \<in> set (accepted_amounts s as) \<Longrightarrow>
     sint (au_CurrentPrice s) + sint (au_Increment s) \<le> sint x \<and> 0 < sint (au_Increment s)"
proof (induction as arbitrary: s)
  case (Cons a as)
  show ?case
  proof (cases "Accepted (EvaluateBid a s)")
    case True
    then have "sint (au_CurrentPrice s) + sint (au_Increment s) \<le> sint (at_Amount a)"
      and "0 < sint (au_Increment s)"
      by (simp_all add: Accepted_iff_verdict bid_verdict_None_iff)
    with True Cons.prems Cons.IH [of "s\<lparr>au_CurrentPrice := at_Amount a\<rparr>"] show ?thesis
      by auto
  next
    case False
    with Cons show ?thesis by simp
  qed
qed simp

lemma accepted_amounts_ascend:
  "sorted_wrt (\<lambda>x y. sint x + sint (au_Increment s) \<le> sint y)
     (au_CurrentPrice s # accepted_amounts s as)"
proof (induction as arbitrary: s)
  case (Cons a as)
  show ?case
  proof (cases "Accepted (EvaluateBid a s)")
    case True
    have "sorted_wrt (\<lambda>x y. sint x + sint (au_Increment s) \<le> sint y)
        (at_Amount a # accepted_amounts (s\<lparr>au_CurrentPrice := at_Amount a\<rparr>) as)"
      using Cons.IH [of "s\<lparr>au_CurrentPrice := at_Amount a\<rparr>"] by simp
    moreover have "\<forall>x \<in> set (accepted_amounts s (a # as)).
        sint (au_CurrentPrice s) + sint (au_Increment s) \<le> sint x"
      using accepted_amounts_above by blast
    ultimately show ?thesis using True by simp
  qed (use Cons in simp)
qed simp

section \<open>Properties\<close>

text \<open>
  C15. \<open>EvaluateBid\<close> decides every bid as the table \<open>bid_checks\<close> over unbounded integers
  does: it rejects with the reason of the first violated line, reports the required minimum
  only for a bid below it and 0 for every other reason, and accepts exactly when no line is
  violated. The wrapping 64-bit arithmetic of the code is never visible.
\<close>

theorem EvaluateBid_matches_table:
  "EvaluateBid a s =
     (case bid_verdict a s of
        None \<Rightarrow> \<lparr> Accepted = True,
          MinimumAmount = au_CurrentPrice s + au_Increment s, Rejection = None \<rparr>
      | Some r \<Rightarrow> reject_bid a s r
          (if r = RejectionBidBelowMinimum then au_CurrentPrice s + au_Increment s else 0))"
  by (rule EvaluateBid_verdict_aux)

text \<open>
  The exact acceptance condition of a bid (I3 and I6): every identifier is present, the
  auction is open and the bidder registered, the bid was submitted strictly before the close
  time, and its amount is at least the current price plus a positive increment, the sum taken
  over unbounded integers (so the overflow test never refuses a bid that would be valid).
\<close>

theorem EvaluateBid_accepts_iff:
  "Accepted (EvaluateBid a s) \<longleftrightarrow>
     at_AuctionID a \<noteq> [] \<and> at_BidderID a \<noteq> [] \<and> at_IdempotencyKey a \<noteq> [] \<and>
     0 < sint (at_Amount a) \<and> at_SubmittedAt a \<noteq> zero_time \<and>
     au_Exists s \<and> au_EffectiveCloseTime s \<noteq> zero_time \<and> au_State s = AuctionStateOpen \<and>
     au_BidderRegistered s \<and> at_SubmittedAt a < au_EffectiveCloseTime s \<and>
     0 \<le> sint (au_CurrentPrice s) \<and> 0 < sint (au_Increment s) \<and>
     sint (au_CurrentPrice s) + sint (au_Increment s) \<le> sint (at_Amount a)"
  by (simp only: Accepted_iff_verdict bid_verdict_None_iff)

text \<open>
  C26. I6, and with it I2, over a series of bids: when each bid is judged against the last accepted
  amount, every accepted amount is above the starting price and above every amount accepted
  before it by at least the increment, so the last accepted bid is the highest.
\<close>

theorem accepted_prices_ascend:
  "sorted_wrt (\<lambda>x y. sint x + sint (au_Increment s) \<le> sint y)
     (au_CurrentPrice s # accepted_amounts s as)"
  by (rule accepted_amounts_ascend)

text \<open>
  The minimum a decision reports never wraps: whatever the snapshot holds, it is 0 or the
  mathematical sum of the current price and the increment, which is then positive.
\<close>

theorem EvaluateBid_minimum_exact:
  "MinimumAmount (EvaluateBid a s) = 0 \<or>
   (sint (MinimumAmount (EvaluateBid a s)) =
      sint (au_CurrentPrice s) + sint (au_Increment s) \<and>
    0 < sint (MinimumAmount (EvaluateBid a s)))"
proof -
  let ?p = "au_CurrentPrice s" and ?i = "au_Increment s"
  have "MinimumAmount (EvaluateBid a s) = 0 \<or>
      (MinimumAmount (EvaluateBid a s) = ?p + ?i \<and> 0 \<le> sint ?p \<and> 0 < sint ?i \<and>
       \<not> maxInt64 - ?i <s ?p)"
    by (simp add: EvaluateBid_def Let_def word_sle_eq word_sless_alt not_less)
  then show ?thesis using minimum_no_wrap [of ?p ?i] by fastforce
qed

end
