(* ===== verification/Ledger_Db.thy ===== *)
theory Ledger_Db
  imports Go_Std
begin

text \<open>
  The tables the program keeps in PostgreSQL, as the statements in the Go sources and the
  migrations under \<^verbatim>\<open>src/migrations/\<close> declare them, and the SQL statements the stores
  issue, one definition each, with the constraints the migrations put on the tables. A column
  the Go code neither reads nor sets (the generated \<open>bids.id\<close> and \<open>created_at\<close>) is left
  out. Values are those of the SQL types: \<open>BIGINT\<close> and \<open>INTEGER\<close> are words read as signed,
  \<open>NUMERIC(20,0)\<close> is \<open>int\<close>, \<open>TIMESTAMPTZ\<close> a count of microseconds since the Unix epoch
  or an infinity, \<open>INTERVAL\<close> a count of microseconds (the migrations' intervals have no month
  or day part), \<open>JSONB\<close> objects association lists of scalars.

  The server and the driver are not part of the repository. What they contribute to one
  transaction is the record \<open>pg_driver\<close>: which call fails, whether a COMMIT whose
  acknowledgement was lost took effect, how times are encoded and scanned, the text a JSONB
  value is sent as, and the values of
  \<open>gen_random_uuid()\<close> and \<open>clock_timestamp()\<close>.
\<close>

section \<open>Rows and tables\<close>

datatype timestamptz = TsMinusInfinity | Ts int | TsInfinity

record auction_row =
  effective_close_time :: timestamptz
  extension_window :: int
  extension_interval :: int
  max_extensions :: int32
  extension_count :: int32

record bid_row =
  row_auction_id :: uuid
  row_sequence_no :: int64
  row_amount :: int
  row_bidder_id :: uuid
  row_idempotency_key :: uuid
  row_stream_entry_id :: string

datatype json_value = JNum int | JUuid uuid | JText string | JTime timestamptz | JBool bool

type_synonym json_object = "(string \<times> json_value) list"

record outbox_row =
  ob_id :: uuid
  ob_event_type :: string
  ob_aggregate_type :: string
  ob_aggregate_id :: uuid
  ob_aggregate_sequence :: int64
  ob_payload :: json_object
  ob_created_at :: int
  ob_published_at :: "int option"
  ob_publish_attempts :: int32

text \<open>
  \<open>native_sequences\<close> holds the per-auction sequences of the benchmark path: the last value
  handed out, 0 before the first.
\<close>

record database =
  auctions :: "uuid \<rightharpoonup> auction_row"
  bids :: "bid_row list"
  auction_sequences :: "uuid \<rightharpoonup> int64"
  outbox :: "outbox_row list"
  native_sequences :: "string \<rightharpoonup> int64"

section \<open>The server and the driver\<close>

datatype pg_call =
    CallBegin
  | CallEnsureSequence
  | CallLockSequence
  | CallInsertBid
  | CallAdvanceSequence
  | CallReadExisting
  | CallLockAuction
  | CallCheckExisting
  | CallExtend
  | CallInsertOutbox
  | CallNextval
  | CallSelectOutbox
  | CallMarkPublished
  | CallCreateSequence
  | CallGrantSequence
  | CallDropSequence
  | CallCommit

record pg_driver =
  fault :: "pg_call \<Rightarrow> string option"
  commit_applied :: bool
  encode_time :: "time \<Rightarrow> timestamptz"
  scan_time :: "timestamptz \<Rightarrow> time option"
  jsonb_text :: "json_object \<Rightarrow> bytes"
  generated_uuid :: uuid
  clock_timestamp :: int

text \<open>A call that reaches the server, or the error the driver reports for it.\<close>

definition on_server :: "pg_driver \<Rightarrow> pg_call \<Rightarrow> 'a result \<Rightarrow> 'a result" where
  "on_server d c r = (case fault d c of Some err \<Rightarrow> Inl (ErrDriver err) | None \<Rightarrow> r)"

text \<open>
  \<open>tx.Commit\<close>: on success the working state is the database; on failure it is lost, or it was
  applied and only the acknowledgement is missing. \<open>msg\<close> is the caller's message.
\<close>

definition commit_tx ::
  "pg_driver \<Rightarrow> database \<Rightarrow> database \<Rightarrow> string \<Rightarrow> 'a \<Rightarrow> database \<times> 'a result"
where
  "commit_tx d db work msg r =
     (case fault d CallCommit of
        None \<Rightarrow> (work, Inr r)
      | Some err \<Rightarrow>
          (if commit_applied d then work else db, Inl (ErrWrap msg (ErrDriver err))))"

text \<open>
  One step of a transaction: its error is wrapped in the caller's message and ends the
  function, its value goes on. \<open>run_tx\<close> is the frame of every store function: BEGIN, the
  body, which ends in an error (the deferred ROLLBACK leaves the database as it was) or in a
  working state to COMMIT with the message of that COMMIT and the value to return.
\<close>

definition attempt :: "string \<Rightarrow> 'a result \<Rightarrow> ('a \<Rightarrow> 'b result) \<Rightarrow> 'b result" where
  "attempt msg r k = (case r of Inl err \<Rightarrow> Inl (ErrWrap msg err) | Inr x \<Rightarrow> k x)"

definition run_tx ::
  "pg_driver \<Rightarrow> database \<Rightarrow> string \<Rightarrow> (database \<times> string \<times> 'a) result \<Rightarrow> database \<times> 'a result"
where
  "run_tx d db begin_msg body =
     (case fault d CallBegin of
        Some err \<Rightarrow> (db, Inl (ErrWrap begin_msg (ErrDriver err)))
      | None \<Rightarrow>
          (case body of
             Inl err \<Rightarrow> (db, Inl err)
           | Inr (work, msg, r) \<Rightarrow> commit_tx d db work msg r))"

section \<open>Timestamps\<close>

fun ts_less :: "timestamptz \<Rightarrow> timestamptz \<Rightarrow> bool" where
  "ts_less (Ts a) (Ts b) = (a < b)"
| "ts_less TsMinusInfinity b = (b \<noteq> TsMinusInfinity)"
| "ts_less a TsMinusInfinity = False"
| "ts_less TsInfinity b = False"
| "ts_less (Ts a) TsInfinity = True"

text \<open>The range of the type, 4714 BC to 294276 AD, in microseconds of the Unix epoch.\<close>

definition ts_valid :: "int \<Rightarrow> bool" where
  "ts_valid us \<longleftrightarrow> - 210866803200000000 \<le> us \<and> us < 9224318016000000000"

fun ts_add :: "timestamptz \<Rightarrow> int \<Rightarrow> timestamptz result" where
  "ts_add (Ts a) i =
     (if ts_valid (a + i) then Inr (Ts (a + i)) else Inl (ErrDriver ''timestamp out of range''))"
| "ts_add t i = Inr t"

section \<open>Lookups\<close>

definition auction_bids :: "database \<Rightarrow> uuid \<Rightarrow> bid_row list" where
  "auction_bids db a = filter (\<lambda>r. row_auction_id r = a) (bids db)"

definition find_bid :: "database \<Rightarrow> uuid \<Rightarrow> uuid \<Rightarrow> bid_row option" where
  "find_bid db a k =
     find (\<lambda>r. row_auction_id r = a \<and> row_idempotency_key r = k) (bids db)"

definition sequence_taken :: "database \<Rightarrow> uuid \<Rightarrow> int64 \<Rightarrow> bool" where
  "sequence_taken db a n \<longleftrightarrow>
     (\<exists>r \<in> set (bids db). row_auction_id r = a \<and> row_sequence_no r = n)"

definition violates :: "string \<Rightarrow> 'a result" where
  "violates constraint_name = Inl (ErrDriver (''violates '' @ constraint_name))"

section \<open>Statements\<close>

text \<open>\<^verbatim>\<open>INSERT INTO auction_sequences ... VALUES ($1, 0) ON CONFLICT DO NOTHING\<close>\<close>

definition sql_ensure_sequence :: "database \<Rightarrow> uuid \<Rightarrow> database result" where
  "sql_ensure_sequence db a =
     (case auction_sequences db a of
        Some _ \<Rightarrow> Inr db
      | None \<Rightarrow>
          if auctions db a = None then violates ''auction_sequences_auction_id_fkey''
          else Inr (db\<lparr>auction_sequences := (auction_sequences db)(a \<mapsto> 0)\<rparr>))"

text \<open>\<^verbatim>\<open>SELECT last_seq FROM auction_sequences WHERE auction_id = $1 FOR UPDATE\<close>\<close>

definition sql_lock_sequence :: "database \<Rightarrow> uuid \<Rightarrow> int64 result" where
  "sql_lock_sequence db a =
     (case auction_sequences db a of None \<Rightarrow> Inl ErrNoRows | Some n \<Rightarrow> Inr n)"

text \<open>The \<open>CHECK\<close> constraints of \<open>bids\<close> in the order of their names.\<close>

definition check_bid :: "bid_row \<Rightarrow> unit result" where
  "check_bid r =
     (if \<not> 0 < row_amount r then violates ''bids_amount_check''
      else if \<not> 0 <s row_sequence_no r then violates ''bids_sequence_no_check''
      else Inr ())"

text \<open>
  \<^verbatim>\<open>INSERT INTO bids ... ON CONFLICT (auction_id, idempotency_key) DO NOTHING RETURNING\<close>:
  no row is returned (\<open>None\<close>) for a key already present; the other unique index still
  raises; the foreign key is checked at the end, for a row that was inserted.
\<close>

definition sql_insert_bid_on_conflict ::
  "database \<Rightarrow> bid_row \<Rightarrow> (database \<times> int64 option) result"
where
  "sql_insert_bid_on_conflict db r =
     (case check_bid r of
        Inl err \<Rightarrow> Inl err
      | Inr _ \<Rightarrow>
          if find_bid db (row_auction_id r) (row_idempotency_key r) \<noteq> None then Inr (db, None)
          else if sequence_taken db (row_auction_id r) (row_sequence_no r) then
            violates ''uq_bids_auction_sequence''
          else if auctions db (row_auction_id r) = None then violates ''bids_auction_id_fkey''
          else Inr (db\<lparr>bids := bids db @ [r]\<rparr>, Some (row_sequence_no r)))"

text \<open>The plain \<^verbatim>\<open>INSERT INTO bids\<close> of \<open>insertBid\<close>.\<close>

definition sql_insert_bid :: "database \<Rightarrow> bid_row \<Rightarrow> database result" where
  "sql_insert_bid db r =
     (case check_bid r of
        Inl err \<Rightarrow> Inl err
      | Inr _ \<Rightarrow>
          if sequence_taken db (row_auction_id r) (row_sequence_no r) then
            violates ''uq_bids_auction_sequence''
          else if find_bid db (row_auction_id r) (row_idempotency_key r) \<noteq> None then
            violates ''uq_bids_auction_idempotency''
          else if auctions db (row_auction_id r) = None then violates ''bids_auction_id_fkey''
          else Inr (db\<lparr>bids := bids db @ [r]\<rparr>))"

text \<open>
  \<^verbatim>\<open>UPDATE auction_sequences SET last_seq = $2 WHERE auction_id = $1 AND last_seq = $3\<close>,
  with the number of rows affected.
\<close>

definition sql_advance_sequence ::
  "database \<Rightarrow> uuid \<Rightarrow> int64 \<Rightarrow> int64 \<Rightarrow> (database \<times> nat) result"
where
  "sql_advance_sequence db a new_seq old_seq =
     (if auction_sequences db a = Some old_seq then
        if new_seq <s 0 then violates ''auction_sequences_last_seq_check''
        else Inr (db\<lparr>auction_sequences := (auction_sequences db)(a \<mapsto> new_seq)\<rparr>, 1)
      else Inr (db, 0))"

text \<open>\<^verbatim>\<open>SELECT sequence_no FROM bids WHERE auction_id = $1 AND idempotency_key = $2\<close>\<close>

definition sql_select_sequence :: "database \<Rightarrow> uuid \<Rightarrow> uuid \<Rightarrow> int64 result" where
  "sql_select_sequence db a k =
     (case find_bid db a k of None \<Rightarrow> Inl ErrNoRows | Some r \<Rightarrow> Inr (row_sequence_no r))"

text \<open>
  \<^verbatim>\<open>SELECT effective_close_time, extension_count FROM auctions WHERE id = $1 FOR UPDATE\<close>,
  scanned into a \<open>time.Time\<close> and an \<open>int32\<close>.
\<close>

definition sql_lock_auction ::
  "pg_driver \<Rightarrow> database \<Rightarrow> uuid \<Rightarrow> (time \<times> int32) result"
where
  "sql_lock_auction d db a =
     (case auctions db a of
        None \<Rightarrow> Inl ErrNoRows
      | Some r \<Rightarrow>
          (case scan_time d (effective_close_time r) of
             None \<Rightarrow> Inl (ErrDriver ''cannot scan timestamptz'')
           | Some t \<Rightarrow> Inr (t, extension_count r)))"

text \<open>The \<open>CHECK\<close> constraints of \<open>auctions\<close>.\<close>

definition auction_row_ok :: "auction_row \<Rightarrow> bool" where
  "auction_row_ok r \<longleftrightarrow>
     0 < extension_window r \<and> 0 < extension_interval r \<and>
     0 \<le>s max_extensions r \<and> 0 \<le>s extension_count r \<and>
     extension_count r \<le>s max_extensions r"

text \<open>
  The anti-snipe \<^verbatim>\<open>UPDATE auctions ... RETURNING effective_close_time, extension_count\<close>,
  first on the row: \<open>None\<close> where its WHERE clause does not hold.
\<close>

definition extend_auction_row :: "pg_driver \<Rightarrow> auction_row \<Rightarrow> time \<Rightarrow> auction_row option result"
where
  "extend_auction_row d r submittedAt =
     (let t = encode_time d submittedAt; close = effective_close_time r in
      if \<not> ts_less t close then Inr None
      else
        (case ts_add close (- extension_window r) of
           Inl err \<Rightarrow> Inl err
         | Inr window_start \<Rightarrow>
             if ts_less t window_start then Inr None
             else if \<not> extension_count r <s max_extensions r then Inr None
             else
               (case ts_add close (extension_interval r) of
                  Inl err \<Rightarrow> Inl err
                | Inr new_close \<Rightarrow>
                    (let r' = r\<lparr>effective_close_time := new_close,
                                extension_count := extension_count r + 1\<rparr> in
                     if sint (extension_count r) = 2 ^ 31 - 1 then
                       Inl (ErrDriver ''integer out of range'')
                     else if \<not> auction_row_ok r' then
                       violates ''auctions_extension_count_valid''
                     else Inr (Some r')))))"

definition sql_extend_auction ::
  "pg_driver \<Rightarrow> database \<Rightarrow> uuid \<Rightarrow> time \<Rightarrow> (database \<times> (time \<times> int32) option) result"
where
  "sql_extend_auction d db a submittedAt =
     (case auctions db a of
        None \<Rightarrow> Inr (db, None)
      | Some r \<Rightarrow>
          (case extend_auction_row d r submittedAt of
             Inl err \<Rightarrow> Inl err
           | Inr None \<Rightarrow> Inr (db, None)
           | Inr (Some r') \<Rightarrow>
               (case scan_time d (effective_close_time r') of
                  None \<Rightarrow> Inl (ErrDriver ''cannot scan timestamptz'')
                | Some c \<Rightarrow>
                    Inr (db\<lparr>auctions := (auctions db)(a \<mapsto> r')\<rparr>,
                         Some (c, extension_count r')))))"

text \<open>\<^verbatim>\<open>btrim\<close>: a text without the spaces at its two ends.\<close>

definition btrim :: "string \<Rightarrow> string" where
  "btrim s = rev (dropWhile (\<lambda>c. c = CHR '' '') (rev (dropWhile (\<lambda>c. c = CHR '' '') s)))"

text \<open>
  \<^verbatim>\<open>INSERT INTO outbox\<close>, with the number of rows affected; the id and the creation time are
  the server's, \<open>published_at\<close> is NULL and \<open>publish_attempts\<close> 0.
\<close>

definition sql_insert_outbox ::
  "pg_driver \<Rightarrow> database \<Rightarrow> string \<Rightarrow> string \<Rightarrow> uuid \<Rightarrow> int64 \<Rightarrow> json_object \<Rightarrow>
     (database \<times> nat) result"
where
  "sql_insert_outbox d db ev_type agg_type agg_id agg_seq payload =
     (if \<not> 0 <s agg_seq then violates ''outbox_aggregate_sequence_positive''
      else if btrim agg_type = [] then violates ''outbox_aggregate_type_not_blank''
      else if btrim ev_type = [] then violates ''outbox_event_type_not_blank''
      else if \<exists>q \<in> set (outbox db). ob_id q = generated_uuid d then violates ''outbox_pkey''
      else if \<exists>q \<in> set (outbox db). ob_event_type q = ev_type \<and>
          ob_aggregate_id q = agg_id \<and> ob_aggregate_sequence q = agg_seq then
        violates ''uq_outbox_event''
      else
        Inr (db\<lparr>outbox := outbox db @
               [\<lparr> ob_id = generated_uuid d, ob_event_type = ev_type,
                  ob_aggregate_type = agg_type, ob_aggregate_id = agg_id,
                  ob_aggregate_sequence = agg_seq, ob_payload = payload,
                  ob_created_at = clock_timestamp d, ob_published_at = None,
                  ob_publish_attempts = 0 \<rparr>]\<rparr>, 1))"

section \<open>Lemmas: calls and transactions\<close>

lemma attempt_Inr_iff [simp]: "attempt msg r k = Inr y \<longleftrightarrow> (\<exists>x. r = Inr x \<and> k x = Inr y)"
  by (cases r) (auto simp: attempt_def)

lemma attempt_Inr [simp]: "attempt msg (Inr x) k = k x"
  by (simp add: attempt_def)

lemma attempt_Inl [simp]: "attempt msg (Inl err) k = Inl (ErrWrap msg err)"
  by (simp add: attempt_def)

lemma on_server_Inr_iff [simp]: "on_server d c r = Inr x \<longleftrightarrow> fault d c = None \<and> r = Inr x"
  by (simp add: on_server_def split: option.split)

lemma on_server_ok [simp]: "fault d c = None \<Longrightarrow> on_server d c r = r"
  by (simp add: on_server_def)

lemma violates_neq_Inr [simp]: "violates c \<noteq> Inr x" "Inr x \<noteq> violates c"
  by (simp_all add: violates_def)

text \<open>
  The outcomes of a transaction: an error that left the database alone, or the working state,
  with its value or, where only the acknowledgement of the COMMIT was lost, with an error.
\<close>

lemma run_tx_outcome:
  assumes "run_tx d db m body = (db', r)"
  shows "(db' = db \<and> (\<exists>err. r = Inl err)) \<or>
    (\<exists>work msg x. body = Inr (work, msg, x) \<and> db' = work \<and>
       (r = Inr x \<or> (\<exists>err. r = Inl (ErrWrap msg (ErrDriver err)) \<and> commit_applied d)))"
  using assms
  by (auto simp: run_tx_def commit_tx_def split: option.splits sum.splits if_splits)

lemma run_tx_Inr:
  assumes "run_tx d db m body = (db', Inr x)"
  shows "\<exists>msg. body = Inr (db', msg, x)"
  using assms
  by (auto simp: run_tx_def commit_tx_def split: option.splits sum.splits if_splits)

lemma run_tx_ok:
  assumes "\<And>c. fault d c = None"
  shows "run_tx d db m body =
    (case body of Inl err \<Rightarrow> (db, Inl err) | Inr (work, msg, x) \<Rightarrow> (work, Inr x))"
  using assms by (simp add: run_tx_def commit_tx_def split: sum.split prod.split)

section \<open>Lemmas: lookups\<close>

lemma auction_bids_append [simp]:
  "auction_bids (db\<lparr>bids := bids db @ [r]\<rparr>) a =
     auction_bids db a @ (if row_auction_id r = a then [r] else [])"
  by (simp add: auction_bids_def)

lemma auction_bids_frame [simp]:
  "auction_bids (db\<lparr>auction_sequences := q\<rparr>) a = auction_bids db a"
  "auction_bids (db\<lparr>auctions := u\<rparr>) a = auction_bids db a"
  "auction_bids (db\<lparr>outbox := ob\<rparr>) a = auction_bids db a"
  "auction_bids (db\<lparr>native_sequences := ns\<rparr>) a = auction_bids db a"
  by (simp_all add: auction_bids_def)

lemma find_bid_frame [simp]:
  "find_bid (db\<lparr>auction_sequences := q\<rparr>) a k = find_bid db a k"
  "find_bid (db\<lparr>auctions := u\<rparr>) a k = find_bid db a k"
  "find_bid (db\<lparr>outbox := ob\<rparr>) a k = find_bid db a k"
  "find_bid (db\<lparr>native_sequences := ns\<rparr>) a k = find_bid db a k"
  by (simp_all add: find_bid_def)

lemma sequence_taken_frame [simp]:
  "sequence_taken (db\<lparr>auction_sequences := q\<rparr>) a n = sequence_taken db a n"
  "sequence_taken (db\<lparr>auctions := u\<rparr>) a n = sequence_taken db a n"
  by (simp_all add: sequence_taken_def)

lemma find_bid_append:
  "find_bid (db\<lparr>bids := bids db @ [r]\<rparr>) a k =
     (case find_bid db a k of
        Some r' \<Rightarrow> Some r'
      | None \<Rightarrow> if row_auction_id r = a \<and> row_idempotency_key r = k then Some r else None)"
  by (simp add: find_bid_def find_append split: option.split)

lemma find_bid_SomeD:
  "find_bid db a k = Some r \<Longrightarrow>
     r \<in> set (bids db) \<and> row_auction_id r = a \<and> row_idempotency_key r = k"
  unfolding find_bid_def by (auto dest: find_Some_iff_set)

lemma find_bid_None_iff:
  "find_bid db a k = None \<longleftrightarrow> k \<notin> row_idempotency_key ` set (auction_bids db a)"
  by (auto simp: find_bid_def auction_bids_def find_None_iff)

lemma sequence_taken_iff:
  "sequence_taken db a n \<longleftrightarrow> n \<in> row_sequence_no ` set (auction_bids db a)"
  by (auto simp: sequence_taken_def auction_bids_def)

section \<open>The sequence counter\<close>

definition last_seq :: "database \<Rightarrow> uuid \<Rightarrow> int64" where
  "last_seq db a = (case auction_sequences db a of None \<Rightarrow> 0 | Some n \<Rightarrow> n)"

definition ensured :: "database \<Rightarrow> uuid \<Rightarrow> database" where
  "ensured db a = db\<lparr>auction_sequences := (auction_sequences db)(a \<mapsto> last_seq db a)\<rparr>"

lemma sql_ensure_sequence_Inr [sql]:
  "sql_ensure_sequence db a = Inr db1 \<longleftrightarrow>
     db1 = ensured db a \<and> (auction_sequences db a \<noteq> None \<or> auctions db a \<noteq> None)"
proof (cases "auction_sequences db a")
  case None
  then show ?thesis by (auto simp: sql_ensure_sequence_def ensured_def last_seq_def)
next
  case (Some n)
  then have "(auction_sequences db)(a \<mapsto> n) = auction_sequences db" by auto
  with Some show ?thesis by (auto simp: sql_ensure_sequence_def ensured_def last_seq_def)
qed

lemma sql_lock_sequence_ensured [sql]: "sql_lock_sequence (ensured db a) a = Inr (last_seq db a)"
  by (simp add: sql_lock_sequence_def ensured_def)

lemma ensured_frame [simp]:
  "bids (ensured db a) = bids db" "auctions (ensured db a) = auctions db"
  "outbox (ensured db a) = outbox db" "native_sequences (ensured db a) = native_sequences db"
  "find_bid (ensured db a) b k = find_bid db b k"
  "sequence_taken (ensured db a) b n = sequence_taken db b n"
  "auction_bids (ensured db a) b = auction_bids db b"
  "auction_sequences (ensured db a) = (auction_sequences db)(a \<mapsto> last_seq db a)"
  by (simp_all add: ensured_def)

lemma last_seq_frame [simp]:
  "last_seq (ensured db a) b = last_seq db b"
  "last_seq (db\<lparr>auctions := u\<rparr>) b = last_seq db b"
  "last_seq (db\<lparr>outbox := ob\<rparr>) b = last_seq db b"
  "last_seq (db\<lparr>bids := bs\<rparr>) b = last_seq db b"
  "last_seq (db\<lparr>native_sequences := ns\<rparr>) b = last_seq db b"
  by (simp_all add: last_seq_def)

lemma check_bid_Inr [sql]:
  "check_bid r = Inr x \<longleftrightarrow> 0 < sint (row_sequence_no r) \<and> 0 < row_amount r"
  by (simp add: check_bid_def word_sless_alt)

lemma sql_insert_conflict_Inr [sql]:
  "sql_insert_bid_on_conflict db r = Inr (db', res) \<longleftrightarrow>
     check_bid r = Inr () \<and>
     (if find_bid db (row_auction_id r) (row_idempotency_key r) \<noteq> None
      then db' = db \<and> res = None
      else \<not> sequence_taken db (row_auction_id r) (row_sequence_no r) \<and>
           auctions db (row_auction_id r) \<noteq> None \<and>
           db' = db\<lparr>bids := bids db @ [r]\<rparr> \<and> res = Some (row_sequence_no r))"
  by (auto simp: sql_insert_bid_on_conflict_def split: sum.split)

lemma sql_advance_Inr [sql]:
  "sql_advance_sequence db a new old = Inr (db', rows) \<longleftrightarrow>
     (if auction_sequences db a = Some old
      then 0 \<le> sint new \<and> rows = 1 \<and>
           db' = db\<lparr>auction_sequences := (auction_sequences db)(a \<mapsto> new)\<rparr>
      else db' = db \<and> rows = 0)"
  by (auto simp: sql_advance_sequence_def word_sless_alt)

lemma sql_select_sequence_Inr [sql]:
  "sql_select_sequence db a k = Inr n \<longleftrightarrow> map_option row_sequence_no (find_bid db a k) = Some n"
  by (auto simp: sql_select_sequence_def split: option.split)

text \<open>The increment of a counter that a \<open>CHECK\<close> finds positive has not wrapped.\<close>

lemma sint64_succ:
  fixes n :: int64
  assumes "0 \<le> sint n" and "0 < sint (n + 1)"
  shows "sint (n + 1) = sint n + 1"
proof (cases "sint n < 2 ^ 63 - 1")
  case True
  then show ?thesis using assms(1) sint64_add [of n 1] by simp
next
  case False
  then have "sint n = sint (9223372036854775807 :: int64)"
    using sint64_bounds [of n] by simp
  then have "n = 9223372036854775807" by (simp only: sint64_inject)
  with assms(2) show ?thesis by simp
qed

lemma sint64_exhausted:
  fixes n :: int64
  assumes "sint n = 2 ^ 63 - 1"
  shows "sint (n + 1) = - (2 ^ 63)"
proof -
  have "sint n = sint (9223372036854775807 :: int64)" using assms by simp
  then have "n = 9223372036854775807" by (simp only: sint64_inject)
  then show ?thesis by simp
qed

section \<open>Times between Go and the database\<close>

text \<open>
  What the driver documents: a finite timestamp is scanned to the same instant, and a time in
  the range of the type is sent with its nanoseconds cut off. An infinite timestamp can not be
  scanned into a \<open>time.Time\<close>.
\<close>

definition driver_times :: "pg_driver \<Rightarrow> bool" where
  "driver_times d \<longleftrightarrow>
     (\<forall>us. scan_time d (Ts us) = Some (us * 1000)) \<and>
     scan_time d TsInfinity = None \<and> scan_time d TsMinusInfinity = None \<and>
     (\<forall>t. ts_valid (t div 1000) \<longrightarrow> encode_time d t = Ts (t div 1000))"

text \<open>The Go comparison and the SQL comparison of a submission with a close time agree.\<close>

lemma before_scanned_iff: "t < us * 1000 \<longleftrightarrow> t div 1000 < (us :: int)"
proof -
  have "t = 1000 * (t div 1000) + t mod 1000" and "0 \<le> t mod 1000" and "t mod 1000 < 1000"
    by simp_all
  then show ?thesis by (intro iffI; linarith)
qed

section \<open>A concrete server and a small database\<close>

definition good_driver :: pg_driver where
  "good_driver =
     \<lparr> fault = (\<lambda>_. None), commit_applied = False,
       encode_time = (\<lambda>t. Ts (t div 1000)),
       scan_time = (\<lambda>ts. case ts of Ts us \<Rightarrow> Some (us * 1000) | _ \<Rightarrow> None),
       jsonb_text = (\<lambda>_. ''{}''), generated_uuid = 77, clock_timestamp = 500 \<rparr>"

definition open_auction :: auction_row where
  "open_auction =
     \<lparr> effective_close_time = Ts 1000000000, extension_window = 30000000,
       extension_interval = 30000000, max_extensions = 10, extension_count = 0 \<rparr>"

definition one_auction_db :: database where
  "one_auction_db =
     \<lparr> auctions = [7 \<mapsto> open_auction], bids = [], auction_sequences = Map.empty,
       outbox = [], native_sequences = Map.empty \<rparr>"

lemma good_driver_simps [simp]:
  "fault good_driver c = None" "commit_applied good_driver = False"
  "encode_time good_driver t = Ts (t div 1000)"
  "scan_time good_driver (Ts us) = Some (us * 1000)"
  "jsonb_text good_driver j = ''{}''" "generated_uuid good_driver = 77" "clock_timestamp good_driver = 500"
  by (simp_all add: good_driver_def)

lemma driver_times_good [simp]: "driver_times good_driver"
  by (simp add: driver_times_def good_driver_def)

lemma one_auction_db_simps [simp]:
  "auctions one_auction_db = [7 \<mapsto> open_auction]" "bids one_auction_db = []"
  "auction_sequences one_auction_db = Map.empty" "outbox one_auction_db = []"
  "native_sequences one_auction_db = Map.empty"
  "last_seq one_auction_db a = 0" "find_bid one_auction_db a k = None"
  "auction_bids one_auction_db a = []"
  by (simp_all add: one_auction_db_def last_seq_def find_bid_def auction_bids_def)

lemma open_auction_ok [simp]: "auction_row_ok open_auction"
  by (simp add: auction_row_ok_def open_auction_def word_sle_eq)

end
