(* ===== verification/Ledger_Contract.thy ===== *)
theory Ledger_Contract
  imports Ledger_Db
begin

text \<open>
  The data of \<^verbatim>\<open>src/internal/store/postgres/ledger.go\<close> and the contract its two appending
  operations share, as the locale \<open>bid_ledger\<close>: what a caller that may deliver the same bid
  any number of times can rely on. The client lemmas are about any sequence of deliveries,
  each with its own behaviour of the server: the key of a bid is recorded at most once, and
  every delivery that succeeds reports the number it was recorded under.
\<close>

section \<open>Data\<close>

record BidToPersist =
  bp_AuctionID :: uuid
  bp_BidderID :: uuid
  bp_Amount :: int64
  bp_IdempotencyKey :: uuid
  bp_StreamEntryID :: string
  bp_CorrelationID :: string

record AppendBidResult =
  SequenceNumber :: int64
  Inserted :: bool

text \<open>The row an INSERT writes for a bid and a sequence number.\<close>

definition bid_row_of :: "BidToPersist \<Rightarrow> int64 \<Rightarrow> bid_row" where
  "bid_row_of bid n =
     \<lparr> row_auction_id = bp_AuctionID bid, row_sequence_no = n,
       row_amount = sint (bp_Amount bid), row_bidder_id = bp_BidderID bid,
       row_idempotency_key = bp_IdempotencyKey bid,
       row_stream_entry_id = bp_StreamEntryID bid \<rparr>"

section \<open>Sequences of deliveries\<close>

text \<open>
  Deliveries one after another: each is an append with the behaviour \<open>d\<close> of the server at
  that time; the results are kept in order.
\<close>

fun deliver ::
  "('d \<Rightarrow> 'b \<Rightarrow> database \<Rightarrow> database \<times> AppendBidResult result) \<Rightarrow> ('d \<times> 'b) list \<Rightarrow>
     database \<Rightarrow> database \<times> AppendBidResult result list"
where
  "deliver app [] db = (db, [])"
| "deliver app ((d, b) # xs) db =
     (case app d b db of
        (db1, r) \<Rightarrow> (case deliver app xs db1 of (db2, rs) \<Rightarrow> (db2, r # rs)))"

lemma deliver_Cons [simp]:
  "fst (deliver app ((d, b) # xs) db) = fst (deliver app xs (fst (app d b db)))"
  "snd (deliver app ((d, b) # xs) db) = snd (app d b db) # snd (deliver app xs (fst (app d b db)))"
  by (simp_all split: prod.split)

declare deliver.simps(2) [simp del]

lemma deliver_length: "length (snd (deliver app xs db)) = length xs"
  by (induction xs arbitrary: db) auto

section \<open>The contract\<close>

locale bid_ledger =
  fixes app :: "'d \<Rightarrow> 'b \<Rightarrow> database \<Rightarrow> database \<times> AppendBidResult result"
    and key_of :: "'b \<Rightarrow> 'k"
    and recorded :: "database \<Rightarrow> 'k \<Rightarrow> int64 option"
    and inv :: "database \<Rightarrow> bool"
  assumes app_inv: "inv db \<Longrightarrow> app d b db = (db', r) \<Longrightarrow> inv db'"
    and app_keeps: "inv db \<Longrightarrow> app d b db = (db', r) \<Longrightarrow>
      recorded db k = Some n \<Longrightarrow> recorded db' k = Some n"
    and app_records: "inv db \<Longrightarrow> app d b db = (db', Inr res) \<Longrightarrow>
      recorded db' (key_of b) = Some (SequenceNumber res)"
    and app_inserted: "inv db \<Longrightarrow> app d b db = (db', Inr res) \<Longrightarrow>
      Inserted res \<longleftrightarrow> recorded db (key_of b) = None"
    and app_only_key: "inv db \<Longrightarrow> app d b db = (db', r) \<Longrightarrow>
      k \<noteq> key_of b \<Longrightarrow> recorded db' k = recorded db k"
begin

lemma deliver_inv: "inv db \<Longrightarrow> inv (fst (deliver app xs db))"
proof (induction xs arbitrary: db)
  case (Cons x xs)
  obtain d b where x: "x = (d, b)" by (cases x)
  have "inv (fst (app d b db))" using Cons.prems app_inv [of db d b] by (metis prod.collapse)
  then show ?case using Cons.IH x by simp
qed simp

lemma deliver_keeps:
  "inv db \<Longrightarrow> recorded db k = Some n \<Longrightarrow> recorded (fst (deliver app xs db)) k = Some n"
proof (induction xs arbitrary: db)
  case (Cons x xs)
  obtain d b where x: "x = (d, b)" by (cases x)
  obtain db1 r where a: "app d b db = (db1, r)" by (cases "app d b db")
  with Cons.prems have "inv db1" and "recorded db1 k = Some n"
    by (blast intro: app_inv app_keeps)+
  then have "recorded (fst (deliver app xs db1)) k = Some n" by (rule Cons.IH)
  with x a show ?case by simp
qed simp

text \<open>Once a key is recorded, every further delivery that succeeds reports its number.\<close>

lemma deliver_after_recorded:
  assumes "inv db" and "recorded db k = Some n"
    and "j < length xs" and "key_of (snd (xs ! j)) = k"
    and "snd (deliver app xs db) ! j = Inr res"
  shows "SequenceNumber res = n \<and> \<not> Inserted res"
  using assms
proof (induction xs arbitrary: db j)
  case (Cons x xs)
  obtain d b where x: "x = (d, b)" by (cases x)
  obtain db1 r where a: "app d b db = (db1, r)" by (cases "app d b db")
  have i1: "inv db1" and k1: "recorded db1 k = Some n"
    using Cons.prems(1,2) a by (blast intro: app_inv app_keeps)+
  show ?case
  proof (cases j)
    case 0
    with Cons.prems x a have "app d b db = (db1, Inr res)" and "key_of b = k"
      by auto
    with Cons.prems(1,2) k1 show ?thesis using app_records app_inserted by fastforce
  next
    case (Suc j')
    with Cons.prems x a have "snd (deliver app xs db1) ! j' = Inr res"
      by auto
    with Suc Cons.prems i1 k1 show ?thesis by (intro Cons.IH) auto
  qed
qed simp

lemma deliver_agree:
  assumes "inv db" and "i < j" and "j < length xs"
    and "key_of (snd (xs ! i)) = key_of (snd (xs ! j))"
    and "snd (deliver app xs db) ! i = Inr ri" and "snd (deliver app xs db) ! j = Inr rj"
  shows "SequenceNumber rj = SequenceNumber ri \<and> \<not> Inserted rj"
  using assms
proof (induction xs arbitrary: db i j)
  case (Cons x xs)
  obtain d b where x: "x = (d, b)" by (cases x)
  obtain db1 r where a: "app d b db = (db1, r)" by (cases "app d b db")
  have i1: "inv db1" using Cons.prems(1) a by (blast intro: app_inv)
  obtain j' where j: "j = Suc j'" using Cons.prems(2) by (cases j) auto
  have rj: "snd (deliver app xs db1) ! j' = Inr rj"
    using Cons.prems(6) x a j by auto
  show ?case
  proof (cases i)
    case 0
    with Cons.prems(5) x a have "app d b db = (db1, Inr ri)" by auto
    then have "recorded db1 (key_of b) = Some (SequenceNumber ri)"
      using Cons.prems(1) by (blast intro: app_records)
    with i1 rj show ?thesis
      using Cons.prems(3,4) 0 j x by (intro deliver_after_recorded) auto
  next
    case (Suc i')
    with Cons.prems(5) x a have "snd (deliver app xs db1) ! i' = Inr ri"
      by auto
    with Suc Cons.prems(2,3,4) j i1 rj show ?thesis by (intro Cons.IH [of db1 i' j']) auto
  qed
qed simp

text \<open>A delivery that succeeded leaves its key recorded, whatever is delivered after it.\<close>

lemma deliver_records:
  assumes "inv db" and "i < length xs" and "snd (deliver app xs db) ! i = Inr res"
  shows "recorded (fst (deliver app xs db)) (key_of (snd (xs ! i))) = Some (SequenceNumber res)"
  using assms
proof (induction xs arbitrary: db i)
  case (Cons x xs)
  obtain d b where x: "x = (d, b)" by (cases x)
  obtain db1 r where a: "app d b db = (db1, r)" by (cases "app d b db")
  have i1: "inv db1" using Cons.prems(1) a by (blast intro: app_inv)
  show ?case
  proof (cases i)
    case 0
    with Cons.prems(3) x a have "app d b db = (db1, Inr res)" by auto
    then have "recorded db1 (key_of b) = Some (SequenceNumber res)"
      using Cons.prems(1) by (blast intro: app_records)
    then have "recorded (fst (deliver app xs db1)) (key_of b) = Some (SequenceNumber res)"
      using i1 by (intro deliver_keeps)
    with x a 0 show ?thesis by simp
  next
    case (Suc i')
    with Cons.prems(3) x a have "snd (deliver app xs db1) ! i' = Inr res"
      by auto
    with Suc Cons.prems(2) i1
    have "recorded (fst (deliver app xs db1)) (key_of (snd (xs ! i'))) = Some (SequenceNumber res)"
      by (intro Cons.IH) auto
    with x a Suc show ?thesis by simp
  qed
qed simp

end

end
