(* ===== verification/Ledger_Store.thy ===== *)
theory Ledger_Store
  imports Ledger_Contract
begin

text \<open>
  \<^verbatim>\<open>src/internal/store/postgres/ledger.go\<close>: appending a bid under the lock of the auction's
  sequence row, and the benchmark path over a native PostgreSQL sequence. One call is one
  transaction and a function of the committed database; \<open>Interleaving\<close> shows that the row locks
  make concurrent calls amount to that. The theory holds the invariant of the ledger
  (I1: the bids of an auction are numbered 1, 2, 3, ... without gaps) and shows that the row
  lock path keeps it whatever fails.
\<close>

section \<open>The row-lock path\<close>

definition AppendBidIdempotentRowLock ::
  "pg_driver \<Rightarrow> BidToPersist \<Rightarrow> database \<Rightarrow> database \<times> AppendBidResult result"
where
  "AppendBidIdempotentRowLock d bid db =
     run_tx d db ''begin idempotent ledger transaction''
       (attempt ''ensure auction sequence row''
          (on_server d CallEnsureSequence (sql_ensure_sequence db (bp_AuctionID bid)))
          (\<lambda>db1. attempt ''lock auction sequence row''
            (on_server d CallLockSequence (sql_lock_sequence db1 (bp_AuctionID bid)))
            (\<lambda>lastSequence.
               let nextSequence = lastSequence + 1 in
               attempt ''insert idempotent bid''
                 (on_server d CallInsertBid
                    (sql_insert_bid_on_conflict db1 (bid_row_of bid nextSequence)))
                 (\<lambda>(db2, inserted).
                    case inserted of
                      Some insertedSequence \<Rightarrow>
                        attempt ''advance auction sequence''
                          (on_server d CallAdvanceSequence
                             (sql_advance_sequence db2 (bp_AuctionID bid) nextSequence lastSequence))
                          (\<lambda>(db3, rows).
                             if rows \<noteq> 1 then
                               Inl (ErrNew ''advance auction sequence: expected one row'')
                             else Inr (db3, ''commit new bid'',
                                    \<lparr> SequenceNumber = insertedSequence, Inserted = True \<rparr>))
                    | None \<Rightarrow>
                        attempt ''read existing idempotent bid''
                          (on_server d CallReadExisting
                             (sql_select_sequence db2 (bp_AuctionID bid) (bp_IdempotencyKey bid)))
                          (\<lambda>existingSequence.
                             Inr (db2, ''commit duplicate bid observation'',
                               \<lparr> SequenceNumber = existingSequence, Inserted = False \<rparr>))))))"

definition AppendBidRowLock ::
  "pg_driver \<Rightarrow> BidToPersist \<Rightarrow> database \<Rightarrow> database \<times> int64 result"
where
  "AppendBidRowLock d bid db =
     (case AppendBidIdempotentRowLock d bid db of
        (db', Inl err) \<Rightarrow> (db', Inl err)
      | (db', Inr r) \<Rightarrow> (db', Inr (SequenceNumber r)))"

section \<open>The benchmark path over a native sequence\<close>

text \<open>\<open>uuid.UUID.String\<close> belongs to the uuid package: the argument \<open>uuid_string\<close>.\<close>

definition perAuctionSequenceName :: "(uuid \<Rightarrow> string) \<Rightarrow> uuid \<Rightarrow> string" where
  "perAuctionSequenceName uuid_string auctionID =
     ''bid_seq_'' @ replace_all CHR ''-'' CHR ''_'' (uuid_string auctionID)"

definition EnsurePostgresSequence ::
  "(uuid \<Rightarrow> string) \<Rightarrow> pg_driver \<Rightarrow> uuid \<Rightarrow> database \<Rightarrow> database \<times> go_error option"
where
  "EnsurePostgresSequence uuid_string d auctionID db =
     (let name = perAuctionSequenceName uuid_string auctionID in
      case fault d CallCreateSequence of
        Some err \<Rightarrow>
          (db, Some (ErrWrap ''create per-auction PostgreSQL sequence'' (ErrDriver err)))
      | None \<Rightarrow>
          (let db1 = (case native_sequences db name of
                        Some _ \<Rightarrow> db
                      | None \<Rightarrow> db\<lparr>native_sequences := (native_sequences db)(name \<mapsto> 0)\<rparr>) in
           case fault d CallGrantSequence of
             Some err \<Rightarrow>
               (db1, Some (ErrWrap ''grant per-auction sequence permission'' (ErrDriver err)))
           | None \<Rightarrow> (db1, None)))"

text \<open>
  \<open>nextval\<close> on a \<open>BIGINT\<close> sequence from 1 by 1. Its effect is not undone by a ROLLBACK.
\<close>

definition sql_nextval :: "database \<Rightarrow> string \<Rightarrow> (database \<times> int64) result" where
  "sql_nextval db name =
     (case native_sequences db name of
        None \<Rightarrow> Inl (ErrDriver ''relation does not exist'')
      | Some n \<Rightarrow>
          if sint n = 2 ^ 63 - 1 then Inl (ErrDriver ''nextval: reached maximum value'')
          else Inr (db\<lparr>native_sequences := (native_sequences db)(name \<mapsto> n + 1)\<rparr>, n + 1))"

definition insertBid :: "pg_driver \<Rightarrow> database \<Rightarrow> BidToPersist \<Rightarrow> int64 \<Rightarrow> database result" where
  "insertBid d db bid sequenceNumber =
     attempt ''insert immutable bid ledger row''
       (on_server d CallInsertBid (sql_insert_bid db (bid_row_of bid sequenceNumber))) Inr"

definition AppendBidPostgresSequence ::
  "(uuid \<Rightarrow> string) \<Rightarrow> pg_driver \<Rightarrow> BidToPersist \<Rightarrow> database \<Rightarrow> database \<times> int64 result"
where
  "AppendBidPostgresSequence uuid_string d bid db =
     (case fault d CallBegin of
        Some err \<Rightarrow> (db, Inl (ErrWrap ''begin PostgreSQL-sequence transaction'' (ErrDriver err)))
      | None \<Rightarrow>
          (case on_server d CallNextval
              (sql_nextval db (perAuctionSequenceName uuid_string (bp_AuctionID bid))) of
             Inl err \<Rightarrow> (db, Inl (ErrWrap ''obtain native PostgreSQL sequence value'' err))
           | Inr (db1, nextSequence) \<Rightarrow>
               (case insertBid d db1 bid nextSequence of
                  Inl err \<Rightarrow> (db1, Inl err)
                | Inr work \<Rightarrow>
                    commit_tx d db1 work ''commit PostgreSQL-sequence transaction'' nextSequence)))"

definition DropPostgresSequence ::
  "(uuid \<Rightarrow> string) \<Rightarrow> pg_driver \<Rightarrow> uuid \<Rightarrow> database \<Rightarrow> database \<times> go_error option"
where
  "DropPostgresSequence uuid_string d auctionID db =
     (case fault d CallDropSequence of
        Some err \<Rightarrow> (db, Some (ErrWrap ''drop per-auction PostgreSQL sequence'' (ErrDriver err)))
      | None \<Rightarrow>
          (db\<lparr>native_sequences := (native_sequences db)
                (perAuctionSequenceName uuid_string auctionID := None)\<rparr>, None))"

section \<open>The ledger invariant\<close>

text \<open>
  I1 for one auction: its bids, in the order of insertion, carry the numbers \<open>1..n\<close>; the
  counter row (0 where there is none) holds \<open>n\<close>; no idempotency key occurs twice.
\<close>

definition auction_inv :: "database \<Rightarrow> uuid \<Rightarrow> bool" where
  "auction_inv db a \<longleftrightarrow>
     map (\<lambda>r. sint (row_sequence_no r)) (auction_bids db a) = [1..int (length (auction_bids db a))] \<and>
     sint (last_seq db a) = int (length (auction_bids db a)) \<and>
     distinct (map row_idempotency_key (auction_bids db a))"

definition ledger_inv :: "database \<Rightarrow> bool" where
  "ledger_inv db \<longleftrightarrow>
     (\<forall>a. auction_inv db a) \<and>
     (\<forall>r \<in> set (bids db). 0 < row_amount r \<and> auctions db (row_auction_id r) \<noteq> None) \<and>
     (\<forall>a r. auctions db a = Some r \<longrightarrow> auction_row_ok r)"

definition recorded :: "database \<Rightarrow> uuid \<times> uuid \<Rightarrow> int64 option" where
  "recorded db k = map_option row_sequence_no (find_bid db (fst k) (snd k))"

definition bid_key :: "BidToPersist \<Rightarrow> uuid \<times> uuid" where
  "bid_key bid = (bp_AuctionID bid, bp_IdempotencyKey bid)"

text \<open>The database after the ledger has taken a new bid: its row and the advanced counter.\<close>

definition appended :: "database \<Rightarrow> BidToPersist \<Rightarrow> database" where
  "appended db bid =
     db\<lparr>bids := bids db @ [bid_row_of bid (last_seq db (bp_AuctionID bid) + 1)],
        auction_sequences := (auction_sequences db)
          (bp_AuctionID bid \<mapsto> last_seq db (bp_AuctionID bid) + 1)\<rparr>"

text \<open>What has to hold for a bid to be taken.\<close>

definition takes_bid :: "database \<Rightarrow> BidToPersist \<Rightarrow> bool" where
  "takes_bid db bid \<longleftrightarrow>
     find_bid db (bp_AuctionID bid) (bp_IdempotencyKey bid) = None \<and>
     auctions db (bp_AuctionID bid) \<noteq> None \<and> 0 < sint (bp_Amount bid) \<and>
     0 < sint (last_seq db (bp_AuctionID bid) + 1)"

section \<open>Preservation of the invariant\<close>

lemma bid_row_of_simps [simp]:
  "row_auction_id (bid_row_of bid n) = bp_AuctionID bid"
  "row_sequence_no (bid_row_of bid n) = n"
  "row_amount (bid_row_of bid n) = sint (bp_Amount bid)"
  "row_idempotency_key (bid_row_of bid n) = bp_IdempotencyKey bid"
  "row_bidder_id (bid_row_of bid n) = bp_BidderID bid"
  "row_stream_entry_id (bid_row_of bid n) = bp_StreamEntryID bid"
  by (simp_all add: bid_row_of_def)

lemma appended_frame [simp]:
  "bids (appended db bid) = bids db @ [bid_row_of bid (last_seq db (bp_AuctionID bid) + 1)]"
  "auctions (appended db bid) = auctions db" "outbox (appended db bid) = outbox db"
  "native_sequences (appended db bid) = native_sequences db"
  by (simp_all add: appended_def)

lemma last_seq_appended [simp]:
  "last_seq (appended db bid) a =
     (if bp_AuctionID bid = a then last_seq db a + 1 else last_seq db a)"
  by (auto simp: appended_def last_seq_def)

lemma auction_bids_appended [simp]:
  "auction_bids (appended db bid) a = auction_bids db a @
     (if bp_AuctionID bid = a then [bid_row_of bid (last_seq db a + 1)] else [])"
  by (auto simp: auction_bids_def)

lemma find_bid_appended:
  "find_bid (appended db bid) a k =
     (case find_bid db a k of
        Some r \<Rightarrow> Some r
      | None \<Rightarrow> if bp_AuctionID bid = a \<and> bp_IdempotencyKey bid = k
          then Some (bid_row_of bid (last_seq db a + 1)) else None)"
  by (auto simp: find_bid_def find_append split: option.split)

lemma auction_inv_last:
  "auction_inv db a \<Longrightarrow> sint (last_seq db a) = int (length (auction_bids db a))"
  by (simp add: auction_inv_def)

lemma auction_inv_numbers:
  assumes "auction_inv db a" and "r \<in> set (auction_bids db a)"
  shows "1 \<le> sint (row_sequence_no r) \<and>
    sint (row_sequence_no r) \<le> int (length (auction_bids db a))"
proof -
  have "sint (row_sequence_no r) \<in> set (map (\<lambda>r. sint (row_sequence_no r)) (auction_bids db a))"
    using assms(2) by auto
  also have "\<dots> = set [1..int (length (auction_bids db a))]"
    using assms(1) by (simp only: auction_inv_def)
  finally show ?thesis by simp
qed

lemma auction_inv_next_free:
  assumes "auction_inv db a" and "0 < sint (last_seq db a + 1)"
  shows "\<not> sequence_taken db a (last_seq db a + 1)"
proof
  assume "sequence_taken db a (last_seq db a + 1)"
  then have "sint (last_seq db a + 1) \<le> sint (last_seq db a)"
    using auction_inv_numbers [OF assms(1)] auction_inv_last [OF assms(1)]
    by (fastforce simp: sequence_taken_iff)
  moreover have "sint (last_seq db a + 1) = sint (last_seq db a) + 1"
    using assms auction_inv_last [OF assms(1)] by (intro sint64_succ) simp_all
  ultimately show False by simp
qed

lemma auction_inv_ensured [inv_intro]: "auction_inv db b \<Longrightarrow> auction_inv (ensured db a) b"
  by (simp add: auction_inv_def)

lemma auction_inv_cong:
  assumes "auction_bids db' a = auction_bids db a"
    and "auction_sequences db' a = auction_sequences db a"
  shows "auction_inv db' a = auction_inv db a"
  using assms by (simp add: auction_inv_def last_seq_def)

lemma auction_inv_appended:
  assumes "auction_inv db a" and "takes_bid db bid"
  shows "auction_inv (appended db bid) a"
proof (cases "bp_AuctionID bid = a")
  case True
  have last: "sint (last_seq db a) = int (length (auction_bids db a))"
    using assms(1) by (rule auction_inv_last)
  have next_seq: "sint (last_seq db a + 1) = int (length (auction_bids db a)) + 1"
    using assms(2) True last sint64_succ [of "last_seq db a"] by (simp add: takes_bid_def)
  have "bp_IdempotencyKey bid \<notin> row_idempotency_key ` set (auction_bids db a)"
    using assms(2) True by (simp add: takes_bid_def find_bid_None_iff)
  with True assms(1) next_seq show ?thesis
    by (simp add: auction_inv_def upto_Suc_snoc [simplified])
next
  case False
  then show ?thesis
    using assms(1) by (simp add: auction_inv_def)
qed

lemma ledger_inv_ensured [inv_intro]: "ledger_inv db \<Longrightarrow> ledger_inv (ensured db a)"
  unfolding ledger_inv_def by (auto simp: auction_inv_ensured)

lemma ledger_inv_appended [inv_intro]:
  assumes "ledger_inv db" and "takes_bid db bid"
  shows "ledger_inv (appended db bid)"
  using assms unfolding ledger_inv_def by (auto simp: auction_inv_appended) (auto simp: takes_bid_def)

lemma recorded_ensured [simp]: "recorded (ensured db a) k = recorded db k"
  by (simp add: recorded_def)

lemma recorded_appended:
  "recorded (appended db bid) k =
     (case recorded db k of
        Some n \<Rightarrow> Some n
      | None \<Rightarrow> if k = bid_key bid then Some (last_seq db (bp_AuctionID bid) + 1) else None)"
  by (cases k) (auto simp: recorded_def find_bid_appended bid_key_def split: option.split)

lemma recorded_None_iff:
  "recorded db (bid_key bid) = None \<longleftrightarrow>
     find_bid db (bp_AuctionID bid) (bp_IdempotencyKey bid) = None"
  by (simp add: recorded_def bid_key_def)

section \<open>The outcomes of the row-lock path\<close>

text \<open>
  A committed call either found the key (the counter row may have been created) or took the
  bid; an error leaves the database alone unless the COMMIT was applied.
\<close>

definition row_lock_commits ::
  "BidToPersist \<Rightarrow> database \<Rightarrow> database \<Rightarrow> AppendBidResult \<Rightarrow> bool"
where
  "row_lock_commits bid db work res \<longleftrightarrow>
     (case recorded db (bid_key bid) of
        Some n \<Rightarrow> work = ensured db (bp_AuctionID bid) \<and>
          res = \<lparr> SequenceNumber = n, Inserted = False \<rparr>
      | None \<Rightarrow> takes_bid db bid \<and> work = appended db bid \<and>
          res = \<lparr> SequenceNumber = last_seq db (bp_AuctionID bid) + 1, Inserted = True \<rparr>)"

lemma appended_via_ensured:
  "(ensured db (bp_AuctionID bid))
     \<lparr>bids := bids db @ [bid_row_of bid (last_seq db (bp_AuctionID bid) + 1)],
      auction_sequences := (auction_sequences db)
        (bp_AuctionID bid \<mapsto> last_seq db (bp_AuctionID bid) + 1)\<rparr> = appended db bid"
  by (simp add: appended_def ensured_def)

lemma row_lock_outcome:
  assumes "AppendBidIdempotentRowLock d bid db = (db', r)"
  shows "(db' = db \<and> (\<exists>err. r = Inl err)) \<or>
    (\<exists>res. row_lock_commits bid db db' res \<and> (r = Inr res \<or> (\<exists>err. r = Inl err)))"
  using run_tx_outcome [OF assms [unfolded AppendBidIdempotentRowLock_def]]
  by (fastforce simp: sql Let_def row_lock_commits_def takes_bid_def recorded_def bid_key_def
      appended_via_ensured split: option.splits if_splits)

lemma row_lock_Inr:
  assumes "AppendBidIdempotentRowLock d bid db = (db', Inr res)"
  shows "row_lock_commits bid db db' res"
  using run_tx_Inr [OF assms [unfolded AppendBidIdempotentRowLock_def]]
  by (fastforce simp: sql Let_def row_lock_commits_def takes_bid_def recorded_def bid_key_def
      appended_via_ensured split: option.splits if_splits)

lemma row_lock_commits_inv:
  "ledger_inv db \<Longrightarrow> row_lock_commits bid db work res \<Longrightarrow> ledger_inv work"
  by (auto simp: row_lock_commits_def intro: inv_intro split: option.splits)

lemma row_lock_commits_recorded:
  assumes "row_lock_commits bid db work res"
  shows "recorded work (bid_key bid) = Some (SequenceNumber res)"
    and "Inserted res \<longleftrightarrow> recorded db (bid_key bid) = None"
    and "recorded db k = Some n \<Longrightarrow> recorded work k = Some n"
    and "k \<noteq> bid_key bid \<Longrightarrow> recorded work k = recorded db k"
  using assms by (auto simp: row_lock_commits_def recorded_appended split: option.splits)

interpretation row_lock: bid_ledger AppendBidIdempotentRowLock bid_key recorded ledger_inv
proof unfold_locales
  fix db d b db' r
  assume "ledger_inv db" and app: "AppendBidIdempotentRowLock d b db = (db', r)"
  then show "ledger_inv db'"
    using row_lock_outcome [OF app] row_lock_commits_inv by blast
next
  fix db d b db' r k n
  assume app: "AppendBidIdempotentRowLock d b db = (db', r)" and "recorded db k = Some n"
  then show "recorded db' k = Some n"
    using row_lock_outcome [OF app] row_lock_commits_recorded(3) by blast
next
  fix db d b db' res
  assume app: "AppendBidIdempotentRowLock d b db = (db', Inr res)"
  then show "recorded db' (bid_key b) = Some (SequenceNumber res)"
    and "Inserted res = (recorded db (bid_key b) = None)"
    using row_lock_Inr [OF app] row_lock_commits_recorded by blast+
next
  fix db d b db' r k
  assume app: "AppendBidIdempotentRowLock d b db = (db', r)" and "k \<noteq> bid_key b"
  then show "recorded db' k = recorded db k"
    using row_lock_outcome [OF app] row_lock_commits_recorded(4) by blast
qed

lemma ledger_inv_one_auction [simp]: "ledger_inv one_auction_db"
  by (auto simp: ledger_inv_def auction_inv_def)

definition first_bid :: BidToPersist where
  "first_bid = \<lparr> bp_AuctionID = 7, bp_BidderID = 3, bp_Amount = 120, bp_IdempotencyKey = 11,
     bp_StreamEntryID = ''5-0'', bp_CorrelationID = ''C'' \<rparr>"

lemma first_bid_simps [simp]:
  "bp_AuctionID first_bid = 7" "bp_BidderID first_bid = 3" "bp_Amount first_bid = 120"
  "bp_IdempotencyKey first_bid = 11" "bp_StreamEntryID first_bid = ''5-0''"
  "bp_CorrelationID first_bid = ''C''"
  by (simp_all add: first_bid_def)

lemma takes_first_bid [simp]: "takes_bid one_auction_db first_bid"
  by (simp add: takes_bid_def)

lemma recorded_one_auction [simp]: "recorded one_auction_db k = None"
  by (simp add: recorded_def)

lemma row_lock_run:
  assumes "ledger_inv db" and "\<And>c. fault d c = None"
    and "auctions db (bp_AuctionID bid) \<noteq> None" and "0 < sint (bp_Amount bid)"
  shows "AppendBidIdempotentRowLock d bid db =
    (if sint (last_seq db (bp_AuctionID bid)) = 2 ^ 63 - 1 then
       (db, Inl (ErrWrap ''insert idempotent bid'' (ErrDriver ''violates bids_sequence_no_check'')))
     else
       (case recorded db (bid_key bid) of
          Some n \<Rightarrow> (ensured db (bp_AuctionID bid), Inr \<lparr> SequenceNumber = n, Inserted = False \<rparr>)
        | None \<Rightarrow> (appended db bid,
            Inr \<lparr> SequenceNumber = last_seq db (bp_AuctionID bid) + 1, Inserted = True \<rparr>)))"
proof -
  let ?a = "bp_AuctionID bid" and ?n = "last_seq db (bp_AuctionID bid) + 1"
  have inv: "auction_inv db ?a" using assms(1) by (simp add: ledger_inv_def)
  have ens: "sql_ensure_sequence db ?a = Inr (ensured db ?a)"
    using assms(3) by (simp add: sql)
  show ?thesis
  proof (cases "sint (last_seq db ?a) = 2 ^ 63 - 1")
    case True
    then have "\<not> 0 <s ?n" by (simp add: sint64_exhausted word_sless_alt)
    with True assms(2,4) show ?thesis
      by (simp add: AppendBidIdempotentRowLock_def run_tx_ok ens sql_lock_sequence_ensured
          sql_insert_bid_on_conflict_def check_bid_def violates_def Let_def)
  next
    case False
    then have pos: "0 < sint ?n"
      using auction_inv_last [OF inv] sint64_bounds(2) [of "last_seq db ?a"]
        sint64_add [of "last_seq db ?a" 1] by simp
    with inv have free: "\<not> sequence_taken db ?a ?n" by (intro auction_inv_next_free)
    from False pos free assms(2,3,4) show ?thesis
      by (auto simp: AppendBidIdempotentRowLock_def run_tx_ok ens sql_lock_sequence_ensured
          sql_insert_bid_on_conflict_def check_bid_def sql_advance_sequence_def
          sql_select_sequence_def word_sless_alt appended_via_ensured recorded_def bid_key_def
          Let_def split: option.splits)
  qed
qed

lemma row_lock_first:
  "AppendBidIdempotentRowLock good_driver first_bid one_auction_db =
     (appended one_auction_db first_bid, Inr \<lparr> SequenceNumber = 1, Inserted = True \<rparr>)"
  using row_lock_run [of one_auction_db good_driver first_bid] by simp

lemma row_lock_second:
  "AppendBidIdempotentRowLock good_driver first_bid (appended one_auction_db first_bid) =
     (ensured (appended one_auction_db first_bid) 7, Inr \<lparr> SequenceNumber = 1, Inserted = False \<rparr>)"
  using row_lock_run [of "appended one_auction_db first_bid" good_driver first_bid]
  by (simp add: ledger_inv_appended recorded_appended)

section \<open>Properties\<close>

text \<open>
  C39. I1 for the row-lock path: whichever call of the transaction fails, and whether or not a
  COMMIT whose acknowledgement was lost took effect, the bids of every auction stay numbered
  \<open>1..n\<close> without gaps, in agreement with the counter, with no key twice.
\<close>

theorem row_lock_keeps_ledger_inv:
  assumes "ledger_inv db"
  shows "ledger_inv (fst (AppendBidIdempotentRowLock d bid db))"
  using assms row_lock.app_inv by (metis prod.collapse)

lemma row_lock_keeps_ledger_inv_witness:
  "ledger_inv (fst (AppendBidIdempotentRowLock good_driver first_bid one_auction_db))"
  by (rule row_lock_keeps_ledger_inv) simp

text \<open>
  C28. What the row-lock path does when no call fails, for a positive bid on an existing
  auction: a recorded key returns its number and inserts nothing, a new key gets the next
  number; and where the 63-bit counter is exhausted, the \<open>CHECK\<close> on \<open>sequence_no\<close> stops the
  wrapped value \<open>last_seq + 1\<close> and nothing changes.
\<close>

theorem row_lock_functional:
  assumes "ledger_inv db" and "\<And>c. fault d c = None"
    and "auctions db (bp_AuctionID bid) \<noteq> None" and "0 < sint (bp_Amount bid)"
  shows "AppendBidIdempotentRowLock d bid db =
    (if sint (last_seq db (bp_AuctionID bid)) = 2 ^ 63 - 1 then
       (db, Inl (ErrWrap ''insert idempotent bid'' (ErrDriver ''violates bids_sequence_no_check'')))
     else
       (case recorded db (bid_key bid) of
          Some n \<Rightarrow> (ensured db (bp_AuctionID bid), Inr \<lparr> SequenceNumber = n, Inserted = False \<rparr>)
        | None \<Rightarrow> (appended db bid,
            Inr \<lparr> SequenceNumber = last_seq db (bp_AuctionID bid) + 1, Inserted = True \<rparr>)))"
  using assms by (rule row_lock_run)

lemma row_lock_functional_witness:
  "AppendBidIdempotentRowLock good_driver first_bid one_auction_db =
     (appended one_auction_db first_bid, Inr \<lparr> SequenceNumber = 1, Inserted = True \<rparr>)"
  using row_lock_functional [of one_auction_db good_driver first_bid] by simp

text \<open>
  Exactly-once recording for the row-lock path: in any sequence of deliveries, each with
  its own failures, two deliveries of the same key that both succeed report the same sequence
  number, and the later one inserts nothing.
\<close>

theorem row_lock_deliveries_agree:
  assumes "ledger_inv db" and "i < j" and "j < length xs"
    and "bid_key (snd (xs ! i)) = bid_key (snd (xs ! j))"
    and "snd (deliver AppendBidIdempotentRowLock xs db) ! i = Inr ri"
    and "snd (deliver AppendBidIdempotentRowLock xs db) ! j = Inr rj"
  shows "SequenceNumber rj = SequenceNumber ri \<and> \<not> Inserted rj"
  using assms by (rule row_lock.deliver_agree)

lemma row_lock_deliveries_agree_witness:
  "snd (deliver AppendBidIdempotentRowLock
     [(good_driver, first_bid), (good_driver, first_bid)] one_auction_db) =
     [Inr \<lparr> SequenceNumber = 1, Inserted = True \<rparr>, Inr \<lparr> SequenceNumber = 1, Inserted = False \<rparr>] \<and>
   (1 :: int64) = 1 \<and> \<not> False"
  using row_lock_deliveries_agree [of one_auction_db 0 1
      "[(good_driver, first_bid), (good_driver, first_bid)]"
      "\<lparr> SequenceNumber = 1, Inserted = True \<rparr>" "\<lparr> SequenceNumber = 1, Inserted = False \<rparr>"]
  by (simp add: row_lock_first row_lock_second)

text \<open>
  The benchmark path over a native sequence is not gap-free: when the INSERT or the COMMIT
  fails after \<open>nextval\<close>, no bid is written but the number is used up, and the next bid that
  succeeds is numbered one higher than the row-lock path would number it.
\<close>

theorem native_sequence_gap:
  assumes "native_sequences db (perAuctionSequenceName us (bp_AuctionID bid)) = Some n"
    and "sint n < 2 ^ 63 - 1" and "fault d CallBegin = None" and "fault d CallNextval = None"
    and "fault d CallInsertBid = Some err"
  shows "bids (fst (AppendBidPostgresSequence us d bid db)) = bids db \<and>
    native_sequences (fst (AppendBidPostgresSequence us d bid db))
      (perAuctionSequenceName us (bp_AuctionID bid)) = Some (n + 1) \<and>
    (\<exists>e. snd (AppendBidPostgresSequence us d bid db) = Inl e)"
  using assms
  by (simp add: AppendBidPostgresSequence_def sql_nextval_def insertBid_def on_server_def)

lemma native_sequence_gap_witness:
  "native_sequences (fst (AppendBidPostgresSequence (\<lambda>_. ''u-1'')
      (good_driver\<lparr>fault := (\<lambda>c. if c = CallInsertBid then Some ''x'' else None)\<rparr>) first_bid
      (one_auction_db\<lparr>native_sequences := [''bid_seq_u_1'' \<mapsto> 4]\<rparr>))) ''bid_seq_u_1'' = Some 5"
proof -
  have "perAuctionSequenceName (\<lambda>_. ''u-1'') 7 = ''bid_seq_u_1''"
    by (simp add: perAuctionSequenceName_def replace_all_def)
  then show ?thesis
    using native_sequence_gap [of "one_auction_db\<lparr>native_sequences := [''bid_seq_u_1'' \<mapsto> 4]\<rparr>"
        "\<lambda>_. ''u-1''" first_bid 4
        "good_driver\<lparr>fault := (\<lambda>c. if c = CallInsertBid then Some ''x'' else None)\<rparr>" "''x''"]
    by simp
qed

text \<open>
  Two auctions never share a native sequence: the names differ whenever the texts of the
  UUIDs do, as long as those texts hold no underscore (they are hexadecimal digits and
  dashes), so replacing dashes by underscores loses nothing.
\<close>

theorem sequence_names_distinct:
  assumes "CHR ''_'' \<notin> set (us a)" and "CHR ''_'' \<notin> set (us b)"
    and "perAuctionSequenceName us a = perAuctionSequenceName us b"
  shows "us a = us b"
proof -
  let ?f = "\<lambda>c. if c = CHR ''-'' then CHR ''_'' else c"
  have "map ?f (us a) = map ?f (us b)"
    using assms(3) by (simp add: perAuctionSequenceName_def replace_all_def)
  moreover have "inj_on ?f (set (us a) \<union> set (us b))"
    using assms(1,2) by (auto simp: inj_on_def)
  ultimately show ?thesis by (simp only: inj_on_map_eq_map)
qed

lemma sequence_names_distinct_witness:
  "(\<lambda>_ :: uuid. ''1-a'') 3 = (\<lambda>_ :: uuid. ''1-a'') 4"
  by (rule sequence_names_distinct [of "\<lambda>_. ''1-a''" 3 4]) (simp_all add: perAuctionSequenceName_def)

end
