(* ===== verification/Anti_Snipe.thy ===== *)
theory Anti_Snipe
  imports Ledger_Store
begin

text \<open>
  \<^verbatim>\<open>src/internal/store/postgres/anti_snipe.go\<close> and \<^verbatim>\<open>outbox_event.go\<close>: the production
  path of the ledger. One transaction locks the auction, recognises a replayed bid, refuses a
  late one, appends the bid under the next number, extends a closing auction, and writes the
  event of the bid to the outbox.
\<close>

section \<open>Data\<close>

definition ErrBidAtOrAfterClose :: go_error where
  "ErrBidAtOrAfterClose = ErrNew ''bid submitted at or after effective close time''"

definition BidAcceptedEventType :: string where
  "BidAcceptedEventType = ''BidAccepted''"

record AntiSnipeAppendResult = AppendBidResult +
  Extended :: bool
  EffectiveCloseTime :: time
  ExtensionCount :: int32

section \<open>The event of an accepted bid\<close>

definition bid_accepted_payload ::
  "pg_driver \<Rightarrow> BidToPersist \<Rightarrow> int64 \<Rightarrow> time \<Rightarrow> time \<Rightarrow> bool \<Rightarrow> int32 \<Rightarrow> json_object"
where
  "bid_accepted_payload d bid sequenceNumber submittedAt close extended extension_cnt =
     [(''version'', JNum 1),
      (''auction_id'', JUuid (bp_AuctionID bid)),
      (''sequence_no'', JNum (sint sequenceNumber)),
      (''bidder_id'', JUuid (bp_BidderID bid)),
      (''amount'', JNum (sint (bp_Amount bid))),
      (''idempotency_key'', JUuid (bp_IdempotencyKey bid)),
      (''stream_entry_id'', JText (bp_StreamEntryID bid)),
      (''correlation_id'', JText (bp_CorrelationID bid)),
      (''submitted_at'', JTime (encode_time d submittedAt)),
      (''effective_close_time'', JTime (encode_time d close)),
      (''extended'', JBool extended),
      (''extension_count'', JNum (sint extension_cnt))]"

definition insertBidAcceptedOutbox ::
  "pg_driver \<Rightarrow> database \<Rightarrow> BidToPersist \<Rightarrow> int64 \<Rightarrow> time \<Rightarrow> time \<Rightarrow> bool \<Rightarrow> int32 \<Rightarrow> database result"
where
  "insertBidAcceptedOutbox d db bid sequenceNumber submittedAt close extended extension_cnt =
     attempt ''insert BidAccepted outbox event''
       (on_server d CallInsertOutbox
          (sql_insert_outbox d db ''BidAccepted'' ''auction'' (bp_AuctionID bid) sequenceNumber
             (bid_accepted_payload d bid sequenceNumber submittedAt close extended extension_cnt)))
       (\<lambda>(db', rows).
          if rows \<noteq> 1 then
            Inl (ErrNew ''insert BidAccepted outbox event: expected one row'')
          else Inr db')"

section \<open>The transaction\<close>

text \<open>
  From the UPDATE of the auction to the last COMMIT: the extension, or the close time and the
  count read at the start, then the event.
\<close>

definition extend_and_publish ::
  "pg_driver \<Rightarrow> BidToPersist \<Rightarrow> time \<Rightarrow> time \<Rightarrow> int32 \<Rightarrow> int64 \<Rightarrow> database \<Rightarrow>
     (database \<times> string \<times> AntiSnipeAppendResult) result"
where
  "extend_and_publish d bid submittedAt currentCloseTime extensionCount insertedSequence db3 =
     attempt ''apply atomic anti-snipe extension''
       (on_server d CallExtend (sql_extend_auction d db3 (bp_AuctionID bid) submittedAt))
       (\<lambda>(db4, ext).
          let (newCloseTime, newExtensionCount, extended) =
            (case ext of
               Some (c, n) \<Rightarrow> (c, n, True)
             | None \<Rightarrow> (currentCloseTime, extensionCount, False))
          in
          attempt ''append transactional outbox event''
            (insertBidAcceptedOutbox d db4 bid insertedSequence submittedAt newCloseTime
               extended newExtensionCount)
            (\<lambda>db5. Inr (db5, ''commit anti-snipe transaction'',
               \<lparr> SequenceNumber = insertedSequence, Inserted = True, Extended = extended,
                 EffectiveCloseTime = newCloseTime, ExtensionCount = newExtensionCount \<rparr>)))"

text \<open>From the counter row to the end, for a bid in time whose key is not yet recorded.\<close>

definition append_new_bid ::
  "pg_driver \<Rightarrow> BidToPersist \<Rightarrow> time \<Rightarrow> time \<Rightarrow> int32 \<Rightarrow> database \<Rightarrow>
     (database \<times> string \<times> AntiSnipeAppendResult) result"
where
  "append_new_bid d bid submittedAt currentCloseTime extensionCount db =
     attempt ''ensure auction sequence row''
       (on_server d CallEnsureSequence (sql_ensure_sequence db (bp_AuctionID bid)))
       (\<lambda>db1. attempt ''lock auction sequence row''
          (on_server d CallLockSequence (sql_lock_sequence db1 (bp_AuctionID bid)))
          (\<lambda>lastSequence.
             let nextSequence = lastSequence + 1 in
             attempt ''insert anti-snipe bid''
               (on_server d CallInsertBid
                  (sql_insert_bid_on_conflict db1 (bid_row_of bid nextSequence)))
               (\<lambda>(db2, inserted).
                  case inserted of
                    None \<Rightarrow>
                      attempt ''read existing idempotent bid''
                        (on_server d CallReadExisting
                           (sql_select_sequence db2 (bp_AuctionID bid) (bp_IdempotencyKey bid)))
                        (\<lambda>existingSequence.
                           Inr (db2, ''commit duplicate bid observation'',
                             \<lparr> SequenceNumber = existingSequence, Inserted = False,
                               Extended = False, EffectiveCloseTime = currentCloseTime,
                               ExtensionCount = extensionCount \<rparr>))
                  | Some insertedSequence \<Rightarrow>
                      attempt ''advance auction sequence''
                        (on_server d CallAdvanceSequence
                           (sql_advance_sequence db2 (bp_AuctionID bid)
                              nextSequence lastSequence))
                        (\<lambda>(db3, rows).
                           if rows \<noteq> 1 then
                             Inl (ErrNew ''advance auction sequence: expected one row'')
                           else extend_and_publish d bid submittedAt currentCloseTime
                             extensionCount insertedSequence db3))))"

definition AppendBidIdempotentWithAntiSnipe ::
  "pg_driver \<Rightarrow> BidToPersist \<Rightarrow> time \<Rightarrow> database \<Rightarrow> database \<times> AntiSnipeAppendResult result"
where
  "AppendBidIdempotentWithAntiSnipe d bid submittedAt db =
     (if IsZero submittedAt then
        (db, Inl (ErrNew ''authoritative bid submission time is required''))
      else
        run_tx d db ''begin anti-snipe transaction''
          (attempt ''lock auction for anti-snipe processing''
             (on_server d CallLockAuction (sql_lock_auction d db (bp_AuctionID bid)))
             (\<lambda>(currentCloseTime, extensionCount).
                case on_server d CallCheckExisting
                    (sql_select_sequence db (bp_AuctionID bid) (bp_IdempotencyKey bid)) of
                  Inr existingSequence \<Rightarrow>
                    Inr (db, ''commit crash-recovery duplicate observation'',
                      \<lparr> SequenceNumber = existingSequence, Inserted = False, Extended = False,
                        EffectiveCloseTime = currentCloseTime, ExtensionCount = extensionCount \<rparr>)
                | Inl err \<Rightarrow>
                    if \<not> errors_is err ErrNoRows then
                      Inl (ErrWrap ''check existing bid before crash recovery'' err)
                    else if \<not> Before submittedAt currentCloseTime then Inl ErrBidAtOrAfterClose
                    else append_new_bid d bid submittedAt currentCloseTime extensionCount db)))"

section \<open>What a committed call does\<close>

text \<open>The auction row after a bid submitted at \<open>t\<close> was accepted.\<close>

definition row_after :: "pg_driver \<Rightarrow> auction_row \<Rightarrow> time \<Rightarrow> auction_row" where
  "row_after d r t =
     (case extend_auction_row d r t of Inr (Some r') \<Rightarrow> r' | _ \<Rightarrow> r)"

definition is_extended :: "pg_driver \<Rightarrow> auction_row \<Rightarrow> time \<Rightarrow> bool" where
  "is_extended d r t \<longleftrightarrow> (\<exists>r'. extend_auction_row d r t = Inr (Some r'))"

text \<open>The outbox row of an accepted bid, from the result of the call.\<close>

definition accepted_event ::
  "pg_driver \<Rightarrow> BidToPersist \<Rightarrow> time \<Rightarrow> AntiSnipeAppendResult \<Rightarrow> outbox_row"
where
  "accepted_event d bid t res =
     \<lparr> ob_id = generated_uuid d, ob_event_type = ''BidAccepted'', ob_aggregate_type = ''auction'',
       ob_aggregate_id = bp_AuctionID bid, ob_aggregate_sequence = SequenceNumber res,
       ob_payload = bid_accepted_payload d bid (SequenceNumber res) t (EffectiveCloseTime res)
         (Extended res) (ExtensionCount res),
       ob_created_at = clock_timestamp d, ob_published_at = None, ob_publish_attempts = 0 \<rparr>"

text \<open>
  A committed call on the auction row \<open>r\<close>: a replay changes nothing and reports the recorded
  number with the current state of the auction; a new bid is appended, the row moves to
  \<open>row_after\<close>, and one event is added.
\<close>

definition anti_snipe_commits ::
  "pg_driver \<Rightarrow> BidToPersist \<Rightarrow> time \<Rightarrow> auction_row \<Rightarrow> database \<Rightarrow> database \<Rightarrow>
     AntiSnipeAppendResult \<Rightarrow> bool"
where
  "anti_snipe_commits d bid t r db work res \<longleftrightarrow>
     (case recorded db (bid_key bid) of
        Some n \<Rightarrow>
          work = db \<and> SequenceNumber res = n \<and> \<not> Inserted res \<and> \<not> Extended res \<and>
          scan_time d (effective_close_time r) = Some (EffectiveCloseTime res) \<and>
          ExtensionCount res = extension_count r
      | None \<Rightarrow>
          takes_bid db bid \<and>
          (\<exists>c. scan_time d (effective_close_time r) = Some c \<and> t < c) \<and>
          SequenceNumber res = last_seq db (bp_AuctionID bid) + 1 \<and> Inserted res \<and>
          Extended res = is_extended d r t \<and>
          scan_time d (effective_close_time (row_after d r t)) = Some (EffectiveCloseTime res) \<and>
          ExtensionCount res = extension_count (row_after d r t) \<and>
          (\<forall>q \<in> set (outbox db). ob_id q \<noteq> generated_uuid d) \<and>
          work = (appended db bid)
            \<lparr>auctions := (auctions db)(bp_AuctionID bid \<mapsto> row_after d r t),
             outbox := outbox db @ [accepted_event d bid t res]\<rparr>)"

lemma sql_lock_auction_Inr [sql]:
  "sql_lock_auction d db a = Inr (c, n) \<longleftrightarrow>
     (\<exists>r. auctions db a = Some r \<and> scan_time d (effective_close_time r) = Some c \<and>
        n = extension_count r)"
  by (auto simp: sql_lock_auction_def split: option.split)

lemma sql_extend_auction_Inr [sql]:
  assumes "auctions db a = Some r" and "sql_extend_auction d db a t = Inr (db', ext)"
  shows "(if is_extended d r t
    then \<exists>c. scan_time d (effective_close_time (row_after d r t)) = Some c \<and>
      ext = Some (c, extension_count (row_after d r t))
    else ext = None \<and> row_after d r t = r) \<and>
    db' = db\<lparr>auctions := (auctions db)(a \<mapsto> row_after d r t)\<rparr>"
  using assms fun_upd_idem_iff [of "auctions db" a "Some r"]
  by (auto simp: sql_extend_auction_def is_extended_def row_after_def
      split: sum.splits option.splits)

lemma insertBidAcceptedOutbox_Inr [sql]:
  "insertBidAcceptedOutbox d db bid n t c x k = Inr db' \<longleftrightarrow>
     fault d CallInsertOutbox = None \<and> 0 < sint n \<and> (\<forall>q \<in> set (outbox db). ob_id q \<noteq> generated_uuid d) \<and>
     (\<forall>q \<in> set (outbox db). ob_event_type q = ''BidAccepted'' \<longrightarrow>
        ob_aggregate_id q = bp_AuctionID bid \<longrightarrow> ob_aggregate_sequence q \<noteq> n) \<and>
     db' = db\<lparr>outbox := outbox db @
       [\<lparr> ob_id = generated_uuid d, ob_event_type = ''BidAccepted'', ob_aggregate_type = ''auction'',
          ob_aggregate_id = bp_AuctionID bid, ob_aggregate_sequence = n,
          ob_payload = bid_accepted_payload d bid n t c x k,
          ob_created_at = clock_timestamp d, ob_published_at = None,
          ob_publish_attempts = 0 \<rparr>]\<rparr>"
  by (auto simp: insertBidAcceptedOutbox_def sql_insert_outbox_def btrim_def word_sless_alt image_iff)

lemma errors_is_ErrNoRows_on_server:
  "on_server d c (sql_select_sequence db a k) = Inl err \<Longrightarrow> errors_is err ErrNoRows \<Longrightarrow>
     find_bid db a k = None"
  by (auto simp: on_server_def sql_select_sequence_def split: option.splits)

text \<open>A committed new bid, step by step.\<close>

lemma extend_and_publish_Inr:
  assumes "extend_and_publish d bid t c k n db3 = Inr (work, msg, res)"
    and "auctions db3 (bp_AuctionID bid) = Some r"
    and "scan_time d (effective_close_time r) = Some c" and "k = extension_count r"
  shows "SequenceNumber res = n \<and> Inserted res \<and> Extended res = is_extended d r t \<and>
    scan_time d (effective_close_time (row_after d r t)) = Some (EffectiveCloseTime res) \<and>
    ExtensionCount res = extension_count (row_after d r t) \<and>
    (\<forall>q \<in> set (outbox db3). ob_id q \<noteq> generated_uuid d) \<and>
    work = db3\<lparr>auctions := (auctions db3)(bp_AuctionID bid \<mapsto> row_after d r t),
      outbox := outbox db3 @ [accepted_event d bid t res]\<rparr>"
proof -
  from assms(1) obtain db4 ext where
    ext: "sql_extend_auction d db3 (bp_AuctionID bid) t = Inr (db4, ext)"
    by (auto simp: extend_and_publish_def)
  note e = sql_extend_auction_Inr [OF assms(2) ext]
  from assms(1) ext e show ?thesis
    by (cases "is_extended d r t")
      (auto simp: extend_and_publish_def insertBidAcceptedOutbox_Inr accepted_event_def
        assms(3,4))
qed

lemma append_new_bid_Inr:
  assumes "append_new_bid d bid t c k db = Inr (work, msg, res)"
    and "find_bid db (bp_AuctionID bid) (bp_IdempotencyKey bid) = None"
    and "auctions db (bp_AuctionID bid) = Some r"
    and "scan_time d (effective_close_time r) = Some c" and "k = extension_count r" and "t < c"
  shows "anti_snipe_commits d bid t r db work res"
proof -
  let ?n = "last_seq db (bp_AuctionID bid) + 1"
  from assms(1,2) have take: "takes_bid db bid"
    and pub: "extend_and_publish d bid t c k ?n (appended db bid) = Inr (work, msg, res)"
    by (auto simp: append_new_bid_def sql Let_def takes_bid_def appended_via_ensured
        split: option.splits if_splits)
  from extend_and_publish_Inr [OF pub] assms take show ?thesis
    by (simp add: anti_snipe_commits_def recorded_def bid_key_def)
qed

lemma anti_snipe_body_Inr:
  assumes "attempt msg1 (on_server d CallLockAuction (sql_lock_auction d db (bp_AuctionID bid)))
      (\<lambda>(c, k).
         case on_server d CallCheckExisting
             (sql_select_sequence db (bp_AuctionID bid) (bp_IdempotencyKey bid)) of
           Inr n \<Rightarrow> Inr (db, msg2,
             \<lparr> SequenceNumber = n, Inserted = False, Extended = False,
               EffectiveCloseTime = c, ExtensionCount = k \<rparr>)
         | Inl err \<Rightarrow>
             if \<not> errors_is err ErrNoRows then Inl (ErrWrap msg3 err)
             else if \<not> Before t c then Inl ErrBidAtOrAfterClose
             else append_new_bid d bid t c k db) = Inr (work, msg, res)"
  shows "\<exists>row. auctions db (bp_AuctionID bid) = Some row \<and> anti_snipe_commits d bid t row db work res"
proof -
  from assms obtain c k r where r: "auctions db (bp_AuctionID bid) = Some r"
    and c: "scan_time d (effective_close_time r) = Some c" "k = extension_count r"
    and body: "(case on_server d CallCheckExisting
             (sql_select_sequence db (bp_AuctionID bid) (bp_IdempotencyKey bid)) of
           Inr n \<Rightarrow> Inr (db, msg2,
             \<lparr> SequenceNumber = n, Inserted = False, Extended = False,
               EffectiveCloseTime = c, ExtensionCount = k \<rparr>)
         | Inl err \<Rightarrow>
             if \<not> errors_is err ErrNoRows then Inl (ErrWrap msg3 err)
             else if \<not> Before t c then Inl ErrBidAtOrAfterClose
             else append_new_bid d bid t c k db) = Inr (work, msg, res)"
    by (auto simp: sql_lock_auction_Inr)
  show ?thesis
  proof (cases "on_server d CallCheckExisting
      (sql_select_sequence db (bp_AuctionID bid) (bp_IdempotencyKey bid))")
    case (Inr n)
    with body r c show ?thesis
      by (auto simp: sql_select_sequence_Inr anti_snipe_commits_def recorded_def bid_key_def)
  next
    case (Inl err)
    with body have no_rows: "errors_is err ErrNoRows" and in_time: "t < c"
      and app: "append_new_bid d bid t c k db = Inr (work, msg, res)"
      by (auto simp: Before_def split: if_splits)
    from Inl no_rows have "find_bid db (bp_AuctionID bid) (bp_IdempotencyKey bid) = None"
      by (rule errors_is_ErrNoRows_on_server)
    with app r c in_time show ?thesis by (blast intro: append_new_bid_Inr)
  qed
qed

lemma anti_snipe_outcome:
  assumes "AppendBidIdempotentWithAntiSnipe d bid t db = (db', r)"
  shows "(db' = db \<and> (\<exists>err. r = Inl err)) \<or>
    (\<exists>row res. auctions db (bp_AuctionID bid) = Some row \<and>
       anti_snipe_commits d bid t row db db' res \<and>
       (r = Inr res \<or> (\<exists>err. r = Inl err)))"
proof (cases "IsZero t")
  case True
  with assms show ?thesis by (auto simp: AppendBidIdempotentWithAntiSnipe_def)
next
  case False
  from run_tx_outcome [OF assms [unfolded AppendBidIdempotentWithAntiSnipe_def if_not_P [OF False]]]
  show ?thesis using anti_snipe_body_Inr by blast
qed

lemma anti_snipe_Inr:
  assumes "AppendBidIdempotentWithAntiSnipe d bid t db = (db', Inr res)"
  shows "\<exists>row. auctions db (bp_AuctionID bid) = Some row \<and> anti_snipe_commits d bid t row db db' res"
proof -
  from assms have nz: "\<not> IsZero t"
    by (auto simp: AppendBidIdempotentWithAntiSnipe_def)
  from run_tx_Inr [OF assms [unfolded AppendBidIdempotentWithAntiSnipe_def if_not_P [OF nz]]]
  show ?thesis using anti_snipe_body_Inr by blast
qed

section \<open>Invariants of the production path\<close>

lemma row_after_ok [inv_intro]: "auction_row_ok r \<Longrightarrow> auction_row_ok (row_after d r t)"
  by (auto simp: row_after_def extend_auction_row_def Let_def
      split: sum.splits option.splits if_splits)

lemma ledger_inv_auctions:
  assumes "ledger_inv db" and "auctions db a = Some r" and "auction_row_ok r'"
  shows "ledger_inv (db\<lparr>auctions := (auctions db)(a \<mapsto> r'), outbox := q\<rparr>)"
proof -
  have "auction_inv (db\<lparr>auctions := (auctions db)(a \<mapsto> r'), outbox := q\<rparr>) b = auction_inv db b" for b
    by (simp add: auction_inv_def)
  with assms show ?thesis by (auto simp: ledger_inv_def)
qed

text \<open>The event \<open>q\<close> tells the story of the bid \<open>r\<close>; it is marked once, when published.\<close>

definition event_for :: "outbox_row \<Rightarrow> bid_row \<Rightarrow> bool" where
  "event_for q r \<longleftrightarrow>
     ob_event_type q = ''BidAccepted'' \<and> ob_aggregate_type q = ''auction'' \<and>
     ob_aggregate_id q = row_auction_id r \<and> ob_aggregate_sequence q = row_sequence_no r \<and>
     map_of (ob_payload q) ''auction_id'' = Some (JUuid (row_auction_id r)) \<and>
     map_of (ob_payload q) ''sequence_no'' = Some (JNum (sint (row_sequence_no r))) \<and>
     map_of (ob_payload q) ''bidder_id'' = Some (JUuid (row_bidder_id r)) \<and>
     map_of (ob_payload q) ''amount'' = Some (JNum (row_amount r)) \<and>
     map_of (ob_payload q) ''idempotency_key'' = Some (JUuid (row_idempotency_key r)) \<and>
     map_of (ob_payload q) ''stream_entry_id'' = Some (JText (row_stream_entry_id r)) \<and>
     ob_publish_attempts q = (if ob_published_at q = None then 0 else 1)"

definition outbox_inv :: "database \<Rightarrow> bool" where
  "outbox_inv db \<longleftrightarrow>
     list_all2 event_for (outbox db) (bids db) \<and> distinct (map ob_id (outbox db))"

lemma event_for_accepted:
  "event_for (accepted_event d bid t res) (bid_row_of bid (SequenceNumber res))"
  by (simp add: event_for_def accepted_event_def bid_accepted_payload_def)

lemma anti_snipe_commits_ledger_inv:
  assumes "ledger_inv db" and "auctions db (bp_AuctionID bid) = Some r"
    and "anti_snipe_commits d bid t r db work res"
  shows "ledger_inv work"
proof (cases "recorded db (bid_key bid)")
  case None
  with assms(3) have "ledger_inv (appended db bid)"
    using assms(1) by (auto simp: anti_snipe_commits_def intro: inv_intro)
  moreover have "auction_row_ok (row_after d r t)"
    using assms(1,2) by (auto simp: ledger_inv_def intro: inv_intro)
  ultimately have "ledger_inv ((appended db bid)
      \<lparr>auctions := (auctions (appended db bid))(bp_AuctionID bid \<mapsto> row_after d r t),
       outbox := outbox db @ [accepted_event d bid t res]\<rparr>)"
    using assms(2) by (intro ledger_inv_auctions) simp_all
  with None assms(3) show ?thesis by (simp add: anti_snipe_commits_def)
qed (use assms in \<open>simp add: anti_snipe_commits_def\<close>)

lemma anti_snipe_commits_outbox_inv:
  assumes "outbox_inv db" and "anti_snipe_commits d bid t r db work res"
  shows "outbox_inv work"
proof (cases "recorded db (bid_key bid)")
  case None
  with assms show ?thesis
    using event_for_accepted [of d bid t res]
    by (auto simp: anti_snipe_commits_def outbox_inv_def accepted_event_def
        intro!: list_all2_appendI)
qed (use assms in \<open>simp add: anti_snipe_commits_def\<close>)

lemma recorded_frame [simp]:
  "recorded (db\<lparr>auctions := u, outbox := ob\<rparr>) k = recorded db k"
  by (simp add: recorded_def)

lemma anti_snipe_commits_recorded:
  assumes "anti_snipe_commits d bid t r db work res"
  shows "recorded work (bid_key bid) = Some (SequenceNumber res)"
    and "Inserted res \<longleftrightarrow> recorded db (bid_key bid) = None"
    and "recorded db k = Some n \<Longrightarrow> recorded work k = Some n"
    and "k \<noteq> bid_key bid \<Longrightarrow> recorded work k = recorded db k"
  using assms by (auto simp: anti_snipe_commits_def recorded_appended split: option.splits)

text \<open>The operation as the consumer uses it: a bid with its time, the embedded result.\<close>

definition anti_snipe_append ::
  "pg_driver \<Rightarrow> BidToPersist \<times> time \<Rightarrow> database \<Rightarrow> database \<times> AppendBidResult result"
where
  "anti_snipe_append d bt db =
     (case AppendBidIdempotentWithAntiSnipe d (fst bt) (snd bt) db of
        (db', Inl err) \<Rightarrow> (db', Inl err)
      | (db', Inr res) \<Rightarrow> (db', Inr (AppendBidResult.truncate res)))"

lemma truncate_simps [simp]:
  "SequenceNumber (AppendBidResult.truncate res) = SequenceNumber res"
  "Inserted (AppendBidResult.truncate res) = Inserted res"
  by (simp_all add: AppendBidResult.truncate_def)

definition house_inv :: "database \<Rightarrow> bool" where
  "house_inv db \<longleftrightarrow> ledger_inv db \<and> outbox_inv db"

lemma anti_snipe_house_inv:
  assumes "house_inv db" and "AppendBidIdempotentWithAntiSnipe d bid t db = (db', r)"
  shows "house_inv db'"
  using anti_snipe_outcome [OF assms(2)] assms(1) anti_snipe_commits_ledger_inv
    anti_snipe_commits_outbox_inv
  unfolding house_inv_def by blast

interpretation anti_snipe: bid_ledger anti_snipe_append "\<lambda>bt. bid_key (fst bt)" recorded house_inv
proof unfold_locales
  fix db :: database and d bt db' and r :: "AppendBidResult result" and res k n
  assume inv: "house_inv db"
  have split: "\<exists>ra. AppendBidIdempotentWithAntiSnipe d (fst bt) (snd bt) db = (db', ra) \<and>
      r = map_sum id AppendBidResult.truncate ra"
    if "anti_snipe_append d bt db = (db', r)" for r
    using that by (auto simp: anti_snipe_append_def split: prod.splits sum.splits)
  show "house_inv db'" if "anti_snipe_append d bt db = (db', r)"
    using split [OF that] anti_snipe_house_inv [OF inv] by blast
  show "recorded db' k = Some n"
    if "anti_snipe_append d bt db = (db', r)" and "recorded db k = Some n"
    using split [OF that(1)] that(2) anti_snipe_outcome anti_snipe_commits_recorded(3) by metis
  show "recorded db' k = recorded db k"
    if "anti_snipe_append d bt db = (db', r)" and "k \<noteq> bid_key (fst bt)"
    using split [OF that(1)] that(2) anti_snipe_outcome anti_snipe_commits_recorded(4) by metis
  show "recorded db' (bid_key (fst bt)) = Some (SequenceNumber res)"
    if "anti_snipe_append d bt db = (db', Inr res)"
  proof -
    from that obtain ra where "AppendBidIdempotentWithAntiSnipe d (fst bt) (snd bt) db = (db', Inr ra)"
      and "res = AppendBidResult.truncate ra"
      by (auto simp: anti_snipe_append_def split: prod.splits sum.splits)
    then show ?thesis using anti_snipe_Inr anti_snipe_commits_recorded(1) by fastforce
  qed
  show "Inserted res = (recorded db (bid_key (fst bt)) = None)"
    if "anti_snipe_append d bt db = (db', Inr res)"
  proof -
    from that obtain ra where "AppendBidIdempotentWithAntiSnipe d (fst bt) (snd bt) db = (db', Inr ra)"
      and "res = AppendBidResult.truncate ra"
      by (auto simp: anti_snipe_append_def split: prod.splits sum.splits)
    then show ?thesis using anti_snipe_Inr anti_snipe_commits_recorded(2) by fastforce
  qed
qed

end
