(* ===== verification/Auction_House.thy ===== *)
theory Auction_House
  imports Anti_Snipe
begin

text \<open>
  What the production path of the ledger promises, proved of
  \<open>AppendBidIdempotentWithAntiSnipe\<close>: an abstract auction (who bid, until when, how often
  extended) that the transaction refines, what a failed call leaves behind, and what holds of
  an auction after any sequence of calls with any failures.
\<close>

section \<open>The extension of a close time\<close>

text \<open>
  A row whose close time is the finite \<open>c\<close>, and a submission, in microseconds, both within the
  range of the type.
\<close>

definition finite_times :: "auction_row \<Rightarrow> int \<Rightarrow> int \<Rightarrow> bool" where
  "finite_times r c us \<longleftrightarrow>
     effective_close_time r = Ts c \<and> ts_valid us \<and>
     ts_valid (c - extension_window r) \<and> ts_valid (c + extension_interval r)"

definition in_window :: "auction_row \<Rightarrow> int \<Rightarrow> int \<Rightarrow> bool" where
  "in_window r c us \<longleftrightarrow>
     c - extension_window r \<le> us \<and> us < c \<and> sint (extension_count r) < sint (max_extensions r)"

lemma count_succ:
  assumes "auction_row_ok r" and "sint (extension_count r) < sint (max_extensions r)"
  shows "sint (extension_count r + 1) = sint (extension_count r) + 1 \<and>
    sint (extension_count r) \<noteq> 2 ^ 31 - 1"
  using assms sint32_bounds [of "max_extensions r"] sint32_bounds [of "extension_count r"]
    sint32_add [of "extension_count r" 1]
  by (simp add: auction_row_ok_def word_sle_eq)

lemma extend_finite:
  assumes "driver_times d" and "finite_times r c (t div 1000)" and "auction_row_ok r"
  shows "extend_auction_row d r t = Inr
    (if in_window r c (t div 1000)
     then Some (r\<lparr>effective_close_time := Ts (c + extension_interval r),
       extension_count := extension_count r + 1\<rparr>)
     else None)"
proof -
  have enc: "encode_time d t = Ts (t div 1000)"
    using assms(1,2) by (simp add: driver_times_def finite_times_def)
  show ?thesis
  proof (cases "in_window r c (t div 1000)")
    case True
    with count_succ [OF assms(3)] assms(2,3) enc show ?thesis
      by (simp add: extend_auction_row_def finite_times_def in_window_def auction_row_ok_def
          word_sle_eq word_sless_alt Let_def)
  next
    case False
    with assms(2) enc show ?thesis
      by (auto simp: extend_auction_row_def finite_times_def in_window_def word_sless_alt Let_def)
  qed
qed

lemma row_after_finite:
  assumes "driver_times d" and "finite_times r c (t div 1000)" and "auction_row_ok r"
  shows "row_after d r t =
    (if in_window r c (t div 1000)
     then r\<lparr>effective_close_time := Ts (c + extension_interval r),
       extension_count := extension_count r + 1\<rparr>
     else r)"
    and "is_extended d r t = in_window r c (t div 1000)"
  using extend_finite [OF assms] by (simp_all add: row_after_def is_extended_def)

section \<open>A call that does not fail\<close>

lemma no_event_for_free_number:
  assumes "outbox_inv db" and "\<not> sequence_taken db a n" and "q \<in> set (outbox db)"
    and "ob_aggregate_id q = a"
  shows "ob_aggregate_sequence q \<noteq> n"
proof -
  from assms(1) have "list_all2 event_for (outbox db) (bids db)"
    by (simp add: outbox_inv_def)
  moreover from assms(3) obtain i where "i < length (outbox db)" and "outbox db ! i = q"
    by (auto simp: in_set_conv_nth)
  ultimately obtain r where "r \<in> set (bids db)" and "event_for q r"
    using list_all2_nthD list_all2_lengthD nth_mem by metis
  with assms(2,4) show ?thesis by (auto simp: event_for_def sequence_taken_def)
qed

text \<open>
  A new bid in time, with no call failing: the transaction is carried out.
\<close>

lemma anti_snipe_new_bid:
  assumes inv: "house_inv db" and ok: "\<And>c. fault d c = None" and d: "driver_times d"
    and r: "auctions db (bp_AuctionID bid) = Some r" and fin: "finite_times r c (t div 1000)"
    and take: "takes_bid db bid" and in_time: "t div 1000 < c"
    and fresh: "\<forall>q \<in> set (outbox db). ob_id q \<noteq> generated_uuid d" and nz: "\<not> IsZero t"
  shows "\<exists>db' res. AppendBidIdempotentWithAntiSnipe d bid t db = (db', Inr res)"
proof -
  let ?a = "bp_AuctionID bid" and ?n = "last_seq db (bp_AuctionID bid) + 1"
  have led: "ledger_inv db" and out: "outbox_inv db" using inv by (simp_all add: house_inv_def)
  have row: "auction_row_ok r" and ai: "auction_inv db ?a"
    using led r by (auto simp: ledger_inv_def)
  have none: "find_bid db ?a (bp_IdempotencyKey bid) = None" and pos: "0 < sint ?n"
    and amount: "0 < sint (bp_Amount bid)"
    using take by (simp_all add: takes_bid_def)
  have free: "\<not> sequence_taken db ?a ?n" using ai pos by (rule auction_inv_next_free)
  have scan: "\<And>us. scan_time d (Ts us) = Some (us * 1000)" using d by (simp add: driver_times_def)
  have close: "effective_close_time r = Ts c" using fin by (simp add: finite_times_def)
  have lock: "sql_lock_auction d db ?a = Inr (c * 1000, extension_count r)"
    using r close scan by (simp add: sql_lock_auction_def)
  have sel: "sql_select_sequence db ?a (bp_IdempotencyKey bid) = Inl ErrNoRows"
    using none by (simp add: sql_select_sequence_def)
  have bef: "Before t (c * 1000)" using in_time by (simp add: Before_def before_scanned_iff)
  have ens: "sql_ensure_sequence db ?a = Inr (ensured db ?a)" using r by (simp add: sql)
  have ins: "sql_insert_bid_on_conflict (ensured db ?a) (bid_row_of bid ?n) =
      Inr ((ensured db ?a)\<lparr>bids := bids db @ [bid_row_of bid ?n]\<rparr>, Some ?n)"
    using none free pos amount r by (simp add: sql)
  have adv: "sql_advance_sequence ((ensured db ?a)\<lparr>bids := bids db @ [bid_row_of bid ?n]\<rparr>) ?a ?n
      (last_seq db ?a) = Inr (appended db bid, 1)"
    using pos by (simp add: sql_advance_sequence_def word_sless_alt appended_via_ensured)
  have ext: "\<exists>db4 x. sql_extend_auction d (appended db bid) ?a t = Inr (db4, x) \<and>
      outbox db4 = outbox db"
    using r scan extend_finite [OF d fin row] by (auto simp: sql_extend_auction_def)
  have pub: "\<exists>db5. insertBidAcceptedOutbox d db4 bid ?n t cl x k = Inr db5"
    if "outbox db4 = outbox db" for db4 cl x k
    using that ok pos fresh no_event_for_free_number [OF out free]
    by (auto simp: insertBidAcceptedOutbox_Inr)
  obtain db4 x where ext4: "sql_extend_auction d (appended db bid) ?a t = Inr (db4, x)"
    and ob4: "outbox db4 = outbox db"
    using ext by blast
  have "\<exists>y. extend_and_publish d bid t (c * 1000) (extension_count r) ?n (appended db bid) = Inr y"
    using pub [OF ob4] ext4 ok
    by (auto simp: extend_and_publish_def split: option.split prod.split)
  then obtain y where "extend_and_publish d bid t (c * 1000) (extension_count r) ?n (appended db bid) = Inr y"
    by blast
  then have "append_new_bid d bid t (c * 1000) (extension_count r) db = Inr y"
    using ok ens ins adv by (simp add: append_new_bid_def sql_lock_sequence_ensured Let_def)
  with nz ok lock sel bef show ?thesis
    by (cases y) (simp add: AppendBidIdempotentWithAntiSnipe_def run_tx_ok)
qed

lemma anti_snipe_replay_run:
  assumes "\<And>c. fault d c = None" and "\<not> IsZero t"
    and "auctions db (bp_AuctionID bid) = Some r"
    and "scan_time d (effective_close_time r) = Some c"
    and "recorded db (bid_key bid) = Some n"
  shows "AppendBidIdempotentWithAntiSnipe d bid t db =
    (db, Inr \<lparr> SequenceNumber = n, Inserted = False, Extended = False,
      EffectiveCloseTime = c, ExtensionCount = extension_count r \<rparr>)"
  using assms
  by (auto simp: AppendBidIdempotentWithAntiSnipe_def run_tx_ok sql_lock_auction_def
      sql_select_sequence_def recorded_def bid_key_def)

lemma anti_snipe_late_run:
  assumes "fault d CallBegin = None" and "fault d CallLockAuction = None"
    and "fault d CallCheckExisting = None" and "\<not> IsZero t"
    and "auctions db (bp_AuctionID bid) = Some r"
    and "scan_time d (effective_close_time r) = Some c" and "c \<le> t"
    and "recorded db (bid_key bid) = None"
  shows "AppendBidIdempotentWithAntiSnipe d bid t db = (db, Inl ErrBidAtOrAfterClose)"
  using assms
  by (auto simp: AppendBidIdempotentWithAntiSnipe_def run_tx_def sql_lock_auction_def
      sql_select_sequence_def recorded_def bid_key_def Before_def)

section \<open>The abstract auction\<close>

text \<open>
  The bids of one auction in order (bidder, amount, idempotency key), the instant it closes in
  microseconds, and how often it was extended.
\<close>

record abstract_auction =
  sp_bids :: "(uuid \<times> int \<times> uuid) list"
  sp_close :: int
  sp_count :: int

datatype answer = Took int bool | Already int | Too_late

fun position :: "uuid \<Rightarrow> (uuid \<times> int \<times> uuid) list \<Rightarrow> int option" where
  "position k [] = None"
| "position k (b # bs) =
     (if snd (snd b) = k then Some 1 else map_option (\<lambda>n. n + 1) (position k bs))"

text \<open>
  Submitting a bid at the instant \<open>us\<close> to an auction with the given extension window, extension
  interval and limit on extensions.
\<close>

definition spec_submit ::
  "int \<Rightarrow> int \<Rightarrow> int \<Rightarrow> uuid \<times> int \<times> uuid \<Rightarrow> int \<Rightarrow> abstract_auction \<Rightarrow>
     abstract_auction \<times> answer"
where
  "spec_submit window interval limit bid us A =
     (case position (snd (snd bid)) (sp_bids A) of
        Some n \<Rightarrow> (A, Already n)
      | None \<Rightarrow>
          if sp_close A \<le> us then (A, Too_late)
          else
            (let ext = (sp_close A - window \<le> us \<and> sp_count A < limit) in
             (\<lparr> sp_bids = sp_bids A @ [bid],
                sp_close = (if ext then sp_close A + interval else sp_close A),
                sp_count = (if ext then sp_count A + 1 else sp_count A) \<rparr>,
              Took (int (length (sp_bids A)) + 1) ext)))"

definition abs_bid :: "bid_row \<Rightarrow> uuid \<times> int \<times> uuid" where
  "abs_bid r = (row_bidder_id r, row_amount r, row_idempotency_key r)"

definition finite_ts :: "timestamptz \<Rightarrow> int" where
  "finite_ts ts = (case ts of Ts c \<Rightarrow> c | _ \<Rightarrow> 0)"

definition abs_auction :: "database \<Rightarrow> uuid \<Rightarrow> abstract_auction" where
  "abs_auction db a =
     \<lparr> sp_bids = map abs_bid (auction_bids db a),
       sp_close = (case auctions db a of None \<Rightarrow> 0 | Some r \<Rightarrow> finite_ts (effective_close_time r)),
       sp_count = (case auctions db a of None \<Rightarrow> 0 | Some r \<Rightarrow> sint (extension_count r)) \<rparr>"

definition abs_result :: "AntiSnipeAppendResult result \<Rightarrow> answer option" where
  "abs_result r =
     (case r of
        Inl err \<Rightarrow> if err = ErrBidAtOrAfterClose then Some Too_late else None
      | Inr res \<Rightarrow>
          Some (if Inserted res then Took (sint (SequenceNumber res)) (Extended res)
            else Already (sint (SequenceNumber res))))"

lemma find_bid_auction_bids:
  "find_bid db a k = find (\<lambda>r. row_idempotency_key r = k) (auction_bids db a)"
proof -
  have "find (\<lambda>r. row_auction_id r = a \<and> row_idempotency_key r = k) rs =
      find (\<lambda>r. row_idempotency_key r = k) (filter (\<lambda>r. row_auction_id r = a) rs)" for rs
    by (induction rs) auto
  then show ?thesis by (simp add: find_bid_def auction_bids_def)
qed

lemma position_numbered:
  assumes "map (\<lambda>r. sint (row_sequence_no r)) rs = [m..m + int (length rs) - 1]"
  shows "position k (map abs_bid rs) =
    map_option (\<lambda>r. sint (row_sequence_no r) - m + 1) (find (\<lambda>r. row_idempotency_key r = k) rs)"
  using assms
proof (induction rs arbitrary: m)
  case (Cons r rs)
  then have "sint (row_sequence_no r) = m"
    and "map (\<lambda>r. sint (row_sequence_no r)) rs = [m + 1..(m + 1) + int (length rs) - 1]"
    by (simp_all add: upto_rec1 algebra_simps)
  then show ?case
    using Cons.IH [of "m + 1"] by (simp add: abs_bid_def option.map_comp comp_def)
qed simp

lemma position_recorded:
  assumes "auction_inv db a"
  shows "position k (sp_bids (abs_auction db a)) = map_option sint (recorded db (a, k))"
  using assms position_numbered [of "auction_bids db a" 1 k]
  by (simp add: auction_inv_def abs_auction_def recorded_def find_bid_auction_bids
      option.map_comp comp_def)

lemma abs_auction_other:
  assumes "anti_snipe_commits d bid t r db db' res" and "b \<noteq> bp_AuctionID bid"
  shows "abs_auction db' b = abs_auction db b"
  using assms by (auto simp: anti_snipe_commits_def abs_auction_def split: option.splits)

section \<open>Refinement\<close>

text \<open>
  A call no part of which fails: the server answers every statement, times are encoded as the
  driver documents, the auction exists with finite times, the amount is positive, the id drawn
  for the event is new, and the 63-bit counter is not exhausted.
\<close>

definition clean_call ::
  "pg_driver \<Rightarrow> BidToPersist \<Rightarrow> time \<Rightarrow> database \<Rightarrow> auction_row \<Rightarrow> int \<Rightarrow> bool"
where
  "clean_call d bid t db r c \<longleftrightarrow>
     fault d = (\<lambda>_. None) \<and> driver_times d \<and> \<not> IsZero t \<and>
     auctions db (bp_AuctionID bid) = Some r \<and> finite_times r c (t div 1000) \<and>
     0 < sint (bp_Amount bid) \<and> (\<forall>q \<in> set (outbox db). ob_id q \<noteq> generated_uuid d) \<and>
     sint (last_seq db (bp_AuctionID bid)) < 2 ^ 63 - 1"

definition submit_to :: "auction_row \<Rightarrow> BidToPersist \<Rightarrow> time \<Rightarrow> abstract_auction \<Rightarrow>
  abstract_auction \<times> answer"
where
  "submit_to r bid t =
     spec_submit (extension_window r) (extension_interval r) (sint (max_extensions r))
       (bp_BidderID bid, sint (bp_Amount bid), bp_IdempotencyKey bid) (t div 1000)"

lemma clean_replay_refines:
  assumes "ledger_inv db" and "clean_call d bid t db r c" and "recorded db (bid_key bid) = Some n"
    and "AppendBidIdempotentWithAntiSnipe d bid t db = (db', res)"
  shows "submit_to r bid t (abs_auction db (bp_AuctionID bid)) = (abs_auction db (bp_AuctionID bid),
      Already (sint n)) \<and> db' = db \<and> abs_result res = Some (Already (sint n))"
proof -
  have "auction_inv db (bp_AuctionID bid)" using assms(1) by (simp add: ledger_inv_def)
  with assms(3) have pos: "position (bp_IdempotencyKey bid)
      (sp_bids (abs_auction db (bp_AuctionID bid))) = Some (sint n)"
    by (simp add: position_recorded bid_key_def)
  from assms(2) have "AppendBidIdempotentWithAntiSnipe d bid t db =
      (db, Inr \<lparr> SequenceNumber = n, Inserted = False, Extended = False,
        EffectiveCloseTime = c * 1000, ExtensionCount = extension_count r \<rparr>)"
    using assms(3)
    by (intro anti_snipe_replay_run) (auto simp: clean_call_def driver_times_def finite_times_def)
  with assms(4) pos show ?thesis
    by (auto simp: submit_to_def spec_submit_def abs_result_def)
qed

lemma clean_late_refines:
  assumes "ledger_inv db" and "clean_call d bid t db r c" and "recorded db (bid_key bid) = None"
    and "c \<le> t div 1000" and "AppendBidIdempotentWithAntiSnipe d bid t db = (db', res)"
  shows "submit_to r bid t (abs_auction db (bp_AuctionID bid)) = (abs_auction db (bp_AuctionID bid),
      Too_late) \<and> db' = db \<and> abs_result res = Some Too_late"
proof -
  have "auction_inv db (bp_AuctionID bid)" using assms(1) by (simp add: ledger_inv_def)
  with assms(3) have pos: "position (bp_IdempotencyKey bid)
      (sp_bids (abs_auction db (bp_AuctionID bid))) = None"
    by (simp add: position_recorded bid_key_def)
  have late: "c * 1000 \<le> t" using assms(4) before_scanned_iff [of t c] by linarith
  from assms(2) have "AppendBidIdempotentWithAntiSnipe d bid t db = (db, Inl ErrBidAtOrAfterClose)"
    using assms(3) late
    by (intro anti_snipe_late_run [where c = "c * 1000"])
      (auto simp: clean_call_def driver_times_def finite_times_def)
  with assms(2,4,5) pos show ?thesis
    by (auto simp: submit_to_def spec_submit_def abs_result_def abs_auction_def clean_call_def
        finite_times_def finite_ts_def)
qed

lemma clean_new_bid_refines:
  assumes "house_inv db" and "clean_call d bid t db r c" and "recorded db (bid_key bid) = None"
    and "t div 1000 < c" and "AppendBidIdempotentWithAntiSnipe d bid t db = (db', res)"
  shows "submit_to r bid t (abs_auction db (bp_AuctionID bid)) =
      (abs_auction db' (bp_AuctionID bid), the (abs_result res)) \<and>
    (\<exists>x. res = Inr x \<and> Inserted x \<and> anti_snipe_commits d bid t r db db' x)"
proof -
  let ?a = "bp_AuctionID bid"
  have led: "ledger_inv db" using assms(1) by (simp add: house_inv_def)
  have ai: "auction_inv db ?a" and row: "auction_row_ok r"
    using led assms(2) by (auto simp: ledger_inv_def clean_call_def)
  have last: "sint (last_seq db ?a) = int (length (auction_bids db ?a))"
    using ai by (rule auction_inv_last)
  with assms(2) have num: "sint (last_seq db ?a + 1) = int (length (auction_bids db ?a)) + 1"
    by (subst sint64_add) (simp_all add: clean_call_def)
  have take: "takes_bid db bid"
    using assms(2,3) num by (auto simp: takes_bid_def clean_call_def recorded_None_iff)
  have "\<exists>db2 x. AppendBidIdempotentWithAntiSnipe d bid t db = (db2, Inr x)"
    using assms(2,4) by (intro anti_snipe_new_bid [OF assms(1) _ _ _ _ take]) (auto simp: clean_call_def)
  with assms(5) obtain x where res: "res = Inr x" by auto
  from assms(2,5) res have com: "anti_snipe_commits d bid t r db db' x"
    using anti_snipe_Inr by (fastforce simp: clean_call_def)
  have after: "row_after d r t =
      (if in_window r c (t div 1000)
       then r\<lparr>effective_close_time := Ts (c + extension_interval r),
         extension_count := extension_count r + 1\<rparr>
       else r)" "is_extended d r t = in_window r c (t div 1000)"
    using assms(2) row row_after_finite by (auto simp: clean_call_def)
  have none: "position (bp_IdempotencyKey bid) (sp_bids (abs_auction db ?a)) = None"
    using assms(3) ai by (simp add: position_recorded bid_key_def)
  from com assms(2,3,4) none num after count_succ [OF row] show ?thesis
    by (auto simp: submit_to_def spec_submit_def abs_auction_def anti_snipe_commits_def res
        abs_result_def clean_call_def finite_times_def finite_ts_def in_window_def abs_bid_def
        Let_def)
qed

lemma house_refines:
  assumes "house_inv db" and "clean_call d bid t db r c"
    and "AppendBidIdempotentWithAntiSnipe d bid t db = (db', res)"
  shows "submit_to r bid t (abs_auction db (bp_AuctionID bid)) =
      (abs_auction db' (bp_AuctionID bid), the (abs_result res)) \<and> abs_result res \<noteq> None \<and>
    (b \<noteq> bp_AuctionID bid \<longrightarrow> abs_auction db' b = abs_auction db b)"
proof (cases "recorded db (bid_key bid)")
  case (Some n)
  with clean_replay_refines [OF _ assms(2) Some assms(3)] assms(1) show ?thesis
    by (simp add: house_inv_def)
next
  case None
  show ?thesis
  proof (cases "t div 1000 < c")
    case True
    with clean_new_bid_refines [OF assms(1,2) None True assms(3)] show ?thesis
      using abs_auction_other by (fastforce simp: abs_result_def)
  next
    case False
    with clean_late_refines [OF _ assms(2) None _ assms(3)] assms(1) show ?thesis
      by (simp add: house_inv_def)
  qed
qed

section \<open>How a row moves\<close>

definition ts_shift :: "timestamptz \<Rightarrow> int \<Rightarrow> timestamptz" where
  "ts_shift ts i = (case ts of Ts c \<Rightarrow> Ts (c + i) | _ \<Rightarrow> ts)"

text \<open>I7: \<open>r'\<close> is \<open>r\<close> after exactly \<open>n\<close> extensions, within the limit.\<close>

definition extended_by :: "nat \<Rightarrow> auction_row \<Rightarrow> auction_row \<Rightarrow> bool" where
  "extended_by n r r' \<longleftrightarrow>
     r' = r\<lparr>effective_close_time := ts_shift (effective_close_time r) (int n * extension_interval r),
       extension_count := extension_count r'\<rparr> \<and>
     sint (extension_count r') = sint (extension_count r) + int n \<and>
     sint (extension_count r') \<le> sint (max_extensions r)"

lemma extended_by_0: "auction_row_ok r \<Longrightarrow> extended_by 0 r r"
  by (cases "effective_close_time r")
    (simp_all add: extended_by_def ts_shift_def auction_row_ok_def word_sle_eq)

lemma extended_by_trans:
  assumes "extended_by m r r'" and "extended_by n r' r''"
  shows "extended_by (m + n) r r''"
proof -
  obtain k where r': "r' = r\<lparr>effective_close_time :=
      ts_shift (effective_close_time r) (int m * extension_interval r), extension_count := k\<rparr>"
    using assms(1) unfolding extended_by_def by blast
  obtain k' where r'': "r'' = r'\<lparr>effective_close_time :=
      ts_shift (effective_close_time r') (int n * extension_interval r'), extension_count := k'\<rparr>"
    using assms(2) unfolding extended_by_def by blast
  have "ts_shift (ts_shift ts (int m * i)) (int n * i) = ts_shift ts (int (m + n) * i)" for ts i
    by (cases ts) (simp_all add: ts_shift_def algebra_simps)
  with assms show ?thesis
    unfolding r'' r' by (simp add: extended_by_def)
qed

lemma row_after_extended:
  assumes "auction_row_ok r"
  shows "extended_by (if is_extended d r t then 1 else 0) r (row_after d r t)"
proof (cases "is_extended d r t")
  case True
  then obtain r' where x: "extend_auction_row d r t = Inr (Some r')"
    by (auto simp: is_extended_def)
  then have lt: "sint (extension_count r) < sint (max_extensions r)"
    by (auto simp: extend_auction_row_def Let_def word_sless_alt split: sum.splits if_splits)
  from x have "r' = r\<lparr>effective_close_time := ts_shift (effective_close_time r) (extension_interval r),
      extension_count := extension_count r + 1\<rparr>"
    by (cases "effective_close_time r")
      (auto simp: extend_auction_row_def Let_def ts_shift_def split: sum.splits if_splits)
  with True x lt count_succ [OF assms lt] show ?thesis
    by (simp add: row_after_def extended_by_def)
next
  case False
  then have "row_after d r t = r"
    by (auto simp: is_extended_def row_after_def split: sum.splits option.splits)
  with False assms show ?thesis by (simp add: extended_by_0)
qed

lemma anti_snipe_row_step:
  assumes "ledger_inv db" and "auctions db a = Some r"
    and "AppendBidIdempotentWithAntiSnipe d bid t db = (db', res)"
  shows "\<exists>n r'. n \<le> 1 \<and> auctions db' a = Some r' \<and> extended_by n r r'"
proof -
  have row: "auction_row_ok r" using assms(1,2) by (auto simp: ledger_inv_def)
  from anti_snipe_outcome [OF assms(3)] consider "db' = db" | x where
    "auctions db (bp_AuctionID bid) = Some x" "auctions db' a =
      (if a = bp_AuctionID bid then Some (row_after d x t) else auctions db a)"
    by (fastforce simp: anti_snipe_commits_def split: option.splits)
  then show ?thesis
  proof cases
    case 1
    with assms(2) extended_by_0 [OF row] show ?thesis by fastforce
  next
    case 2
    with assms(2) row_after_extended [OF row, of d t] extended_by_0 [OF row] show ?thesis
      by (cases "is_extended d r t"; cases "a = bp_AuctionID bid") fastforce+
  qed
qed

section \<open>What a call leaves\<close>

text \<open>Nothing recorded is changed: bids and events are only added, and only for this auction.\<close>

lemma anti_snipe_commits_adds:
  assumes "anti_snipe_commits d bid t r db work res"
  shows "(work = db \<or> (\<exists>b q. bids work = bids db @ [b] \<and> outbox work = outbox db @ [q] \<and>
      row_auction_id b = bp_AuctionID bid \<and> ob_aggregate_id q = bp_AuctionID bid)) \<and>
    (a \<noteq> bp_AuctionID bid \<longrightarrow> auctions work a = auctions db a \<and>
      auction_sequences work a = auction_sequences db a)"
  using assms
  by (cases "recorded db (bid_key bid)")
    (auto simp: anti_snipe_commits_def accepted_event_def appended_def)

lemma anti_snipe_adds:
  assumes "AppendBidIdempotentWithAntiSnipe d bid t db = (db', r)"
  shows "(db' = db \<or> (\<exists>b q. bids db' = bids db @ [b] \<and> outbox db' = outbox db @ [q] \<and>
      row_auction_id b = bp_AuctionID bid \<and> ob_aggregate_id q = bp_AuctionID bid)) \<and>
    (a \<noteq> bp_AuctionID bid \<longrightarrow> auctions db' a = auctions db a \<and>
      auction_sequences db' a = auction_sequences db a)"
  using anti_snipe_outcome [OF assms] anti_snipe_commits_adds by blast

text \<open>A clean call on the small database, for the witnesses.\<close>

lemma fault_good_driver: "fault good_driver = (\<lambda>_. None)"
  by (rule ext) simp

lemma clean_first: "clean_call good_driver first_bid 5000000 one_auction_db open_auction 1000000000"
  by (simp add: clean_call_def finite_times_def ts_valid_def open_auction_def IsZero_def
      zero_time_def fault_good_driver)

lemma house_inv_one_auction [simp]: "house_inv one_auction_db"
  by (simp add: house_inv_def outbox_inv_def)

lemma submit_first:
  "submit_to open_auction first_bid 5000000 (abs_auction one_auction_db 7) =
     (\<lparr> sp_bids = [(3, 120, 11)], sp_close = 1000000000, sp_count = 0 \<rparr>, Took 1 False)"
  by (simp add: submit_to_def spec_submit_def abs_auction_def open_auction_def finite_ts_def)

text \<open>The small database after the first bid, and the answer to it.\<close>

definition first_answer :: AntiSnipeAppendResult where
  "first_answer = \<lparr> SequenceNumber = 1, Inserted = True, Extended = False,
     EffectiveCloseTime = 1000000000000, ExtensionCount = 0 \<rparr>"

definition house_after_first :: database where
  "house_after_first = (appended one_auction_db first_bid)
     \<lparr>outbox := [accepted_event good_driver first_bid 5000000 first_answer]\<rparr>"

lemma not_in_window_first: "extend_auction_row good_driver open_auction 5000000 = Inr None"
  by (simp add: extend_auction_row_def open_auction_def ts_valid_def Let_def)

lemma anti_snipe_first:
  "AppendBidIdempotentWithAntiSnipe good_driver first_bid 5000000 one_auction_db =
     (house_after_first, Inr first_answer)"
proof -
  obtain db' res where call: "AppendBidIdempotentWithAntiSnipe good_driver first_bid 5000000
      one_auction_db = (db', Inr res)"
    using anti_snipe_new_bid [of one_auction_db good_driver first_bid open_auction 1000000000 5000000]
      clean_first by (auto simp: clean_call_def)
  have none: "\<not> is_extended good_driver open_auction 5000000"
    "row_after good_driver open_auction 5000000 = open_auction"
    using not_in_window_first by (simp_all add: is_extended_def row_after_def)
  from anti_snipe_Inr [OF call] have com:
    "anti_snipe_commits good_driver first_bid 5000000 open_auction one_auction_db db' res"
    by auto
  then have res: "res = first_answer"
    using none by (cases res) (simp add: anti_snipe_commits_def first_answer_def open_auction_def)
  have "(auctions one_auction_db)(7 \<mapsto> open_auction) = auctions one_auction_db" by simp
  with com none res have "db' = house_after_first"
    by (simp add: anti_snipe_commits_def house_after_first_def appended_def)
  with call res show ?thesis by simp
qed

lemma anti_snipe_again:
  "AppendBidIdempotentWithAntiSnipe good_driver first_bid 5000000 house_after_first =
     (house_after_first, Inr \<lparr> SequenceNumber = 1, Inserted = False, Extended = False,
        EffectiveCloseTime = 1000000000000, ExtensionCount = 0 \<rparr>)"
proof -
  have "recorded house_after_first (bid_key first_bid) = Some 1"
    using anti_snipe_Inr [OF anti_snipe_first] anti_snipe_commits_recorded(1)
    by (fastforce simp: first_answer_def)
  then show ?thesis
    using anti_snipe_replay_run [of good_driver 5000000 house_after_first first_bid open_auction
        1000000000000 1]
    by (simp add: house_after_first_def open_auction_def IsZero_def zero_time_def)
qed

section \<open>Properties\<close>

text \<open>
  C5. I1 and the outbox for the production path: whichever call fails, and whether or not an
  unacknowledged COMMIT took effect, afterwards the bids of every auction are numbered \<open>1..n\<close>
  without gaps in agreement with the counter, no idempotency key occurs twice, and the outbox
  holds exactly one event per bid, in the order of the bids, that names the bid's auction,
  number, bidder, amount, key and stream entry.
\<close>

theorem anti_snipe_keeps_house_inv:
  assumes "house_inv db"
  shows "house_inv (fst (AppendBidIdempotentWithAntiSnipe d bid t db))"
  using anti_snipe_house_inv [OF assms] by (metis prod.collapse)

lemma anti_snipe_keeps_house_inv_witness:
  "house_inv (fst (AppendBidIdempotentWithAntiSnipe good_driver first_bid 5000000 one_auction_db))"
  by (rule anti_snipe_keeps_house_inv) simp

text \<open>
  C3. The production path refines the abstract auction: when no call fails, the transaction
  takes the auction from one abstract state to the next exactly as \<open>spec_submit\<close> does (a known
  key is answered with its position, a bid at or after the close is refused, any other bid is
  put at the end and extends the auction exactly inside the window and below the limit), returns
  the matching answer, and leaves every other auction alone.
\<close>

theorem anti_snipe_refines_spec:
  assumes "house_inv db" and "clean_call d bid t db r c"
    and "AppendBidIdempotentWithAntiSnipe d bid t db = (db', res)"
  shows "submit_to r bid t (abs_auction db (bp_AuctionID bid)) =
      (abs_auction db' (bp_AuctionID bid), the (abs_result res)) \<and> abs_result res \<noteq> None \<and>
    (b \<noteq> bp_AuctionID bid \<longrightarrow> abs_auction db' b = abs_auction db b)"
  using assms by (rule house_refines)

lemma anti_snipe_refines_spec_witness:
  "abs_auction (fst (AppendBidIdempotentWithAntiSnipe good_driver first_bid 5000000 one_auction_db)) 7 =
     \<lparr> sp_bids = [(3, 120, 11)], sp_close = 1000000000, sp_count = 0 \<rparr>"
  using anti_snipe_refines_spec [OF house_inv_one_auction clean_first] submit_first
  by (cases "AppendBidIdempotentWithAntiSnipe good_driver first_bid 5000000 one_auction_db") simp

text \<open>
  Replay: a bid whose key is recorded is answered with the recorded number and the current
  close time and count, inserts nothing, extends nothing and leaves the database as it is, at
  any time, in particular after the auction has closed.
\<close>

theorem anti_snipe_replay:
  assumes "\<And>c. fault d c = None" and "\<not> IsZero t"
    and "auctions db (bp_AuctionID bid) = Some r"
    and "scan_time d (effective_close_time r) = Some c"
    and "recorded db (bid_key bid) = Some n"
  shows "AppendBidIdempotentWithAntiSnipe d bid t db =
    (db, Inr \<lparr> SequenceNumber = n, Inserted = False, Extended = False,
      EffectiveCloseTime = c, ExtensionCount = extension_count r \<rparr>)"
  using assms by (rule anti_snipe_replay_run)

lemma anti_snipe_replay_witness:
  "AppendBidIdempotentWithAntiSnipe good_driver first_bid 9000000000000
      (appended one_auction_db first_bid) =
    (appended one_auction_db first_bid, Inr \<lparr> SequenceNumber = 1, Inserted = False,
      Extended = False, EffectiveCloseTime = 1000000000000, ExtensionCount = 0 \<rparr>)"
  using anti_snipe_replay [of good_driver 9000000000000 "appended one_auction_db first_bid"
      first_bid open_auction 1000000000000 1]
  by (simp add: recorded_appended open_auction_def IsZero_def zero_time_def)

text \<open>
  C18. I3: a new bid submitted at or after the effective close time is refused with
  \<open>ErrBidAtOrAfterClose\<close> and nothing is written, whatever the server would do with the
  statements that come after the check.
\<close>

theorem anti_snipe_refuses_late:
  assumes "fault d CallBegin = None" and "fault d CallLockAuction = None"
    and "fault d CallCheckExisting = None" and "\<not> IsZero t"
    and "auctions db (bp_AuctionID bid) = Some r"
    and "scan_time d (effective_close_time r) = Some c" and "c \<le> t"
    and "recorded db (bid_key bid) = None"
  shows "AppendBidIdempotentWithAntiSnipe d bid t db = (db, Inl ErrBidAtOrAfterClose)"
  using assms by (rule anti_snipe_late_run)

lemma anti_snipe_refuses_late_witness:
  "AppendBidIdempotentWithAntiSnipe good_driver first_bid 1000000000000 one_auction_db =
     (one_auction_db, Inl ErrBidAtOrAfterClose)"
  by (rule anti_snipe_refuses_late [where r = open_auction and c = 1000000000000])
    (simp_all add: open_auction_def IsZero_def zero_time_def)

text \<open>
  C27. I7 for one call: whatever fails, the auction row afterwards is the row before, extended
  once or not at all: the close time moves by exactly one interval when the count moves by one,
  the count never passes the maximum, and no other column changes.
\<close>

theorem anti_snipe_extends_at_most_once:
  assumes "ledger_inv db" and "auctions db a = Some r"
    and "AppendBidIdempotentWithAntiSnipe d bid t db = (db', res)"
  shows "\<exists>n r'. n \<le> 1 \<and> auctions db' a = Some r' \<and> extended_by n r r'"
  using assms by (rule anti_snipe_row_step)

lemma anti_snipe_extends_at_most_once_witness:
  "\<exists>n r'. n \<le> 1 \<and> auctions (fst (AppendBidIdempotentWithAntiSnipe good_driver first_bid
      999990000000 one_auction_db)) 7 = Some r' \<and> extended_by n open_auction r'"
  using anti_snipe_extends_at_most_once [of one_auction_db 7 open_auction good_driver first_bid
      999990000000]
  by (cases "AppendBidIdempotentWithAntiSnipe good_driver first_bid 999990000000 one_auction_db") simp

text \<open>
  Append-only: whatever fails, the bids and the events before the call are a prefix of those
  after it, at most one of each is added, both for the auction of the bid, and the row and the
  counter of every other auction are untouched.
\<close>

theorem anti_snipe_append_only:
  assumes "AppendBidIdempotentWithAntiSnipe d bid t db = (db', r)"
  shows "(db' = db \<or> (\<exists>b q. bids db' = bids db @ [b] \<and> outbox db' = outbox db @ [q] \<and>
      row_auction_id b = bp_AuctionID bid \<and> ob_aggregate_id q = bp_AuctionID bid)) \<and>
    (a \<noteq> bp_AuctionID bid \<longrightarrow> auctions db' a = auctions db a \<and>
      auction_sequences db' a = auction_sequences db a)"
  using assms by (rule anti_snipe_adds)

lemma anti_snipe_append_only_witness:
  "auctions (fst (AppendBidIdempotentWithAntiSnipe good_driver first_bid 5000000 one_auction_db)) 8 =
     None"
  using anti_snipe_append_only [of good_driver first_bid 5000000 one_auction_db _ _ 8]
  by (cases "AppendBidIdempotentWithAntiSnipe good_driver first_bid 5000000 one_auction_db") simp

text \<open>
  C8. Exactly-once recording for the production path: in any sequence of deliveries, with any
  failures and at any times, two deliveries of the same key that both succeed report the same
  number, and the later one inserts nothing.
\<close>

theorem anti_snipe_deliveries_agree:
  assumes "house_inv db" and "i < j" and "j < length xs"
    and "bid_key (fst (snd (xs ! i))) = bid_key (fst (snd (xs ! j)))"
    and "snd (deliver anti_snipe_append xs db) ! i = Inr ri"
    and "snd (deliver anti_snipe_append xs db) ! j = Inr rj"
  shows "SequenceNumber rj = SequenceNumber ri \<and> \<not> Inserted rj"
  using assms by (rule anti_snipe.deliver_agree)

lemma anti_snipe_deliveries_agree_witness:
  "map (map_sum id Inserted) (snd (deliver anti_snipe_append
      [(good_driver, (first_bid, 5000000)), (good_driver, (first_bid, 5000000))] one_auction_db)) =
     [Inr True, Inr False] \<and> (1 :: int64) = 1 \<and> \<not> False"
  using anti_snipe_deliveries_agree [of one_auction_db 0 1
      "[(good_driver, (first_bid, 5000000)), (good_driver, (first_bid, 5000000))]"
      "\<lparr> SequenceNumber = 1, Inserted = True \<rparr>" "\<lparr> SequenceNumber = 1, Inserted = False \<rparr>"]
  by (simp add: anti_snipe_append_def anti_snipe_first anti_snipe_again first_answer_def
      AppendBidResult.truncate_def)

text \<open>
  The close time is checked twice, by Go on nanoseconds and by the extension's UPDATE on
  the microseconds the driver sent: for every time in the range of the type the two agree, so a
  bid that Go let pass is in time for the UPDATE as well.
\<close>

theorem close_checks_agree:
  assumes "driver_times d" and "ts_valid (t div 1000)"
    and "scan_time d (Ts us) = Some c"
  shows "Before t c = ts_less (encode_time d t) (Ts us)"
  using assms by (auto simp: driver_times_def Before_def before_scanned_iff)

lemma close_checks_agree_witness:
  "Before 999999999999 1000000000000 = ts_less (encode_time good_driver 999999999999) (Ts 1000000000)"
  by (rule close_checks_agree) (simp_all add: ts_valid_def)

text \<open>
  C37. When the 63-bit counter of an auction is exhausted, the next number wraps to a negative
  one; the \<open>CHECK\<close> on \<open>sequence_no\<close> stops it, the call reports the insert's error, and nothing
  is written.
\<close>

theorem anti_snipe_counter_exhausted:
  assumes "\<And>c. fault d c = None" and "\<not> IsZero t"
    and "auctions db (bp_AuctionID bid) = Some r"
    and "scan_time d (effective_close_time r) = Some c" and "t < c"
    and "recorded db (bid_key bid) = None"
    and "sint (last_seq db (bp_AuctionID bid)) = 2 ^ 63 - 1" and "0 < sint (bp_Amount bid)"
  shows "AppendBidIdempotentWithAntiSnipe d bid t db =
    (db, Inl (ErrWrap ''insert anti-snipe bid'' (ErrDriver ''violates bids_sequence_no_check'')))"
proof -
  have neg: "\<not> 0 <s last_seq db (bp_AuctionID bid) + 1"
    using assms(7) by (simp add: sint64_exhausted word_sless_alt)
  have "append_new_bid d bid t c (extension_count r) db =
      Inl (ErrWrap ''insert anti-snipe bid'' (ErrDriver ''violates bids_sequence_no_check''))"
    using assms(1,3,8) neg sql_ensure_sequence_Inr [of db "bp_AuctionID bid" "ensured db (bp_AuctionID bid)"]
    by (simp add: append_new_bid_def sql_lock_sequence_ensured sql_insert_bid_on_conflict_def
        check_bid_def violates_def Let_def)
  with assms show ?thesis
    by (auto simp: AppendBidIdempotentWithAntiSnipe_def run_tx_ok sql_lock_auction_def
        sql_select_sequence_def recorded_def bid_key_def Before_def)
qed

lemma anti_snipe_counter_exhausted_witness:
  "fst (AppendBidIdempotentWithAntiSnipe good_driver first_bid 5000000
      (one_auction_db\<lparr>auction_sequences := [7 \<mapsto> 9223372036854775807]\<rparr>)) =
    one_auction_db\<lparr>auction_sequences := [7 \<mapsto> 9223372036854775807]\<rparr>"
  using anti_snipe_counter_exhausted [of good_driver 5000000
      "one_auction_db\<lparr>auction_sequences := [7 \<mapsto> 9223372036854775807]\<rparr>" first_bid open_auction
      1000000000000]
  by (simp add: open_auction_def IsZero_def zero_time_def recorded_def last_seq_def first_bid_def)

text \<open>
  C38. A row whose close time is the infinity the fourth migration writes into the auctions that
  existed before it: the driver can not read it into a \<open>time.Time\<close>, so no bid on that auction
  is ever accepted or even recognised as a replay.
\<close>

theorem anti_snipe_infinite_close:
  assumes "driver_times d" and "auctions db (bp_AuctionID bid) = Some r"
    and "effective_close_time r = TsInfinity"
  shows "\<exists>err. AppendBidIdempotentWithAntiSnipe d bid t db = (db, Inl err)"
proof -
  have "sql_lock_auction d db (bp_AuctionID bid) = Inl (ErrDriver ''cannot scan timestamptz'')"
    using assms by (simp add: sql_lock_auction_def driver_times_def)
  then show ?thesis
    by (simp add: AppendBidIdempotentWithAntiSnipe_def run_tx_def on_server_def split: option.split)
qed

lemma anti_snipe_infinite_close_witness:
  "\<exists>err. AppendBidIdempotentWithAntiSnipe good_driver first_bid 5000000
      (one_auction_db\<lparr>auctions := [7 \<mapsto> open_auction\<lparr>effective_close_time := TsInfinity\<rparr>]\<rparr>) =
     (one_auction_db\<lparr>auctions := [7 \<mapsto> open_auction\<lparr>effective_close_time := TsInfinity\<rparr>]\<rparr>, Inl err)"
  by (rule anti_snipe_infinite_close
      [where r = "open_auction\<lparr>effective_close_time := TsInfinity\<rparr>"]) simp_all

end
