(* ===== verification/Ledger_Consumer.thy ===== *)
theory Ledger_Consumer
  imports Bid_Validation Stream_Store Auction_House
begin

text \<open>
  \<^verbatim>\<open>src/internal/engine/ledger_consumer.go\<close>: the consumer that takes bids from the stream,
  commits them to the ledger and only then acknowledges them. The world is the database and an
  environment \<open>'e\<close> that holds Redis and everything else outside. Arguments of the model:
  \<^item> the pool of the ledger: the behaviour of the server for the next transaction, and the
    database as other processes have left it by then;
  \<^item> \<open>uuid.Parse\<close>, and the context;
  \<^item> the three hooks of the configuration, which act on the world. The hook between the COMMIT
    and the acknowledgement has no result, but the process may end inside it (\<open>Process_ends\<close>),
    as the crash test makes it do.
  The log lines are not modelled.
\<close>

section \<open>Data\<close>

type_synonym 'e world = "database \<times> 'e"

type_synonym 'e ledger_pool = "database \<Rightarrow> 'e \<Rightarrow> pg_driver \<times> database \<times> 'e"

text \<open>A call returns, or the process ends inside it.\<close>

datatype 'a outcome = Returns 'a | Process_ends

record 'e LedgerConsumerConfig =
  lc_AuctionID :: string
  lc_Group :: string
  lc_Consumer :: string
  lc_BatchSize :: int64
  lc_BlockPeriod :: duration
  lc_ValidateEntry :: "(BidStreamEntry \<Rightarrow> 'e world \<Rightarrow> BidValidationResult result \<times> 'e world) option"
  lc_RecoveryMinIdle :: duration
  lc_RecoveryBatchSize :: int64
  lc_AfterPersistBeforeAck ::
    "(BidStreamEntry \<Rightarrow> AppendBidResult \<Rightarrow> 'e world \<Rightarrow> unit outcome \<times> 'e world) option"
  lc_BeforeAck :: "(BidStreamEntry \<Rightarrow> 'e world \<Rightarrow> go_error option \<times> 'e world) option"

record 'e LedgerConsumer =
  lc_streams :: "'e StreamStore"
  lc_ledger :: "'e ledger_pool"
  lc_config :: "'e LedgerConsumerConfig"

definition NewLedgerConsumer ::
  "'e StreamStore \<Rightarrow> 'e ledger_pool \<Rightarrow> 'e LedgerConsumerConfig \<Rightarrow> 'e LedgerConsumer"
where
  "NewLedgerConsumer streams ledger config =
     \<lparr> lc_streams = streams, lc_ledger = ledger, lc_config = config \<rparr>"

section \<open>One entry\<close>

text \<open>
  The bid a stream entry stands for and the time it was submitted: the checks of
  \<open>persistEntry\<close> before it calls the ledger.
\<close>

definition entry_bid ::
  "(string \<Rightarrow> uuid result) \<Rightarrow> string \<Rightarrow> BidStreamEntry \<Rightarrow> (BidToPersist \<times> time) result"
where
  "entry_bid uuid_Parse consumerAuction entry =
     (if bi_AuctionID entry \<noteq> consumerAuction then
        Inl (ErrNew ''stream entry auction does not match consumer auction'')
      else
        attempt ''parse auction ID'' (uuid_Parse (bi_AuctionID entry)) (\<lambda>auctionID.
        attempt ''parse bidder ID'' (uuid_Parse (bi_BidderID entry)) (\<lambda>bidderID.
        attempt ''parse idempotency key'' (uuid_Parse (bi_IdempotencyKey entry)) (\<lambda>idempotencyKey.
        attempt ''derive authoritative ingress timestamp from stream ID''
            (StreamEntryTime (se_ID entry)) (\<lambda>submittedAt.
          Inr (\<lparr> bp_AuctionID = auctionID, bp_BidderID = bidderID, bp_Amount = bi_Amount entry,
                 bp_IdempotencyKey = idempotencyKey, bp_StreamEntryID = se_ID entry,
                 bp_CorrelationID = bi_CorrelationID entry \<rparr>, submittedAt))))))"

definition persistEntry ::
  "(string \<Rightarrow> uuid result) \<Rightarrow> 'e LedgerConsumer \<Rightarrow> BidStreamEntry \<Rightarrow> 'e world \<Rightarrow>
     AppendBidResult result \<times> 'e world"
where
  "persistEntry uuid_Parse C entry w =
     (case entry_bid uuid_Parse (lc_AuctionID (lc_config C)) entry of
        Inl err \<Rightarrow> (Inl err, w)
      | Inr (bid, submittedAt) \<Rightarrow>
          (case lc_ledger C (fst w) (snd w) of
             (d, db, e) \<Rightarrow>
               (case AppendBidIdempotentWithAntiSnipe d bid submittedAt db of
                  (db', Inl err) \<Rightarrow> (Inl err, db', e)
                | (db', Inr res) \<Rightarrow> (Inr (AppendBidResult.truncate res), db', e))))"

definition ack_entry ::
  "'e LedgerConsumer \<Rightarrow> string \<Rightarrow> BidStreamEntry \<Rightarrow> 'e world \<Rightarrow> go_error option outcome \<times> 'e world"
where
  "ack_entry C msg entry w =
     (case Ack (lc_streams C) (lc_AuctionID (lc_config C)) (lc_Group (lc_config C)) [se_ID entry]
         (snd w) of
        (Some err, e') \<Rightarrow> (Returns (Some (ErrWrap msg err)), fst w, e')
      | (None, e') \<Rightarrow> (Returns None, fst w, e'))"

text \<open>From the COMMIT to the acknowledgement.\<close>

definition after_persist ::
  "'e LedgerConsumer \<Rightarrow> BidStreamEntry \<Rightarrow> AppendBidResult \<Rightarrow> 'e world \<Rightarrow>
     go_error option outcome \<times> 'e world"
where
  "after_persist C entry result w =
     (case (case lc_AfterPersistBeforeAck (lc_config C) of
              None \<Rightarrow> (Returns (), w) | Some h \<Rightarrow> h entry result w) of
        (Process_ends, w1) \<Rightarrow> (Process_ends, w1)
      | (Returns _, w1) \<Rightarrow>
          (case (case lc_BeforeAck (lc_config C) of None \<Rightarrow> (None, w1) | Some h \<Rightarrow> h entry w1) of
             (Some err, w2) \<Rightarrow> (Returns (Some (ErrWrap ''before Redis XACK for entry'' err)), w2)
           | (None, w2) \<Rightarrow> ack_entry C ''ack committed Redis entry'' entry w2))"

definition persist_and_ack ::
  "(string \<Rightarrow> uuid result) \<Rightarrow> 'e LedgerConsumer \<Rightarrow> BidStreamEntry \<Rightarrow> 'e world \<Rightarrow>
     go_error option outcome \<times> 'e world"
where
  "persist_and_ack uuid_Parse C entry w =
     (case persistEntry uuid_Parse C entry w of
        (Inl err, w1) \<Rightarrow> (Returns (Some err), w1)
      | (Inr result, w1) \<Rightarrow> after_persist C entry result w1)"

text \<open>
  The body of the loop of \<open>processEntries\<close>: \<open>Returns None\<close> when the entry was acknowledged and
  counted, an error when the loop stops there.
\<close>

definition process_entry ::
  "(string \<Rightarrow> uuid result) \<Rightarrow> 'e LedgerConsumer \<Rightarrow> BidStreamEntry \<Rightarrow> 'e world \<Rightarrow>
     go_error option outcome \<times> 'e world"
where
  "process_entry uuid_Parse C entry w =
     (case lc_ValidateEntry (lc_config C) of
        None \<Rightarrow> persist_and_ack uuid_Parse C entry w
      | Some validate \<Rightarrow>
          (case validate entry w of
             (Inl err, w1) \<Rightarrow> (Returns (Some (ErrWrap ''validate stream entry'' err)), w1)
           | (Inr validation, w1) \<Rightarrow>
               if \<not> Accepted validation then
                 ack_entry C ''ack rejected Redis entry'' entry w1
               else persist_and_ack uuid_Parse C entry w1))"

section \<open>Batches\<close>

fun processEntries ::
  "(string \<Rightarrow> uuid result) \<Rightarrow> 'e LedgerConsumer \<Rightarrow> nat \<Rightarrow> BidStreamEntry list \<Rightarrow> 'e world \<Rightarrow>
     (nat \<times> go_error option) outcome \<times> 'e world"
where
  "processEntries uuid_Parse C processed [] w = (Returns (processed, None), w)"
| "processEntries uuid_Parse C processed (entry # entries) w =
     (case process_entry uuid_Parse C entry w of
        (Process_ends, w') \<Rightarrow> (Process_ends, w')
      | (Returns (Some err), w') \<Rightarrow> (Returns (processed, Some err), w')
      | (Returns None, w') \<Rightarrow> processEntries uuid_Parse C (processed + 1) entries w')"

definition processBatch ::
  "(string \<Rightarrow> uuid result) \<Rightarrow> 'e LedgerConsumer \<Rightarrow> int64 \<Rightarrow> 'e world \<Rightarrow>
     (nat \<times> go_error option) outcome \<times> 'e world"
where
  "processBatch uuid_Parse C count w =
     (let cf = lc_config C in
      case ReadGroup (lc_streams C) (lc_AuctionID cf) (lc_Group cf) (lc_Consumer cf) count
          (lc_BlockPeriod cf) (snd w) of
        (Inl err, e') \<Rightarrow> (Returns (0, Some (ErrWrap ''read bid stream group'' err)), fst w, e')
      | (Inr entries, e') \<Rightarrow> processEntries uuid_Parse C 0 entries (fst w, e'))"

definition ensureGroup :: "'e LedgerConsumer \<Rightarrow> 'e world \<Rightarrow> go_error option \<times> 'e world" where
  "ensureGroup C w =
     (let cf = lc_config C in
      if lc_AuctionID cf = [] then (Some (ErrNew ''ledger consumer auction ID is required''), w)
      else if lc_Group cf = [] then (Some (ErrNew ''ledger consumer group is required''), w)
      else if lc_Consumer cf = [] then (Some (ErrNew ''ledger consumer name is required''), w)
      else if lc_BatchSize cf \<le>s 0 then
        (Some (ErrNew ''ledger consumer batch size must be positive''), w)
      else
        (case EnsureConsumerGroup (lc_streams C) (lc_AuctionID cf) (lc_Group cf) (snd w) of
           (Some err, e') \<Rightarrow> (Some (ErrWrap ''ensure ledger consumer group'' err), fst w, e')
         | (None, e') \<Rightarrow> (None, fst w, e')))"

section \<open>Recovery of pending entries\<close>

definition recovery_batch_size :: "'e LedgerConsumerConfig \<Rightarrow> int64" where
  "recovery_batch_size cf =
     (if lc_RecoveryBatchSize cf \<le>s 0 then lc_BatchSize cf else lc_RecoveryBatchSize cf)"

definition recovery_min_idle :: "'e LedgerConsumerConfig \<Rightarrow> duration" where
  "recovery_min_idle cf =
     (if lc_RecoveryMinIdle cf \<le> 0 then 30 * 1000000000 else lc_RecoveryMinIdle cf)"

text \<open>
  One pass of the loop of \<open>recoverPending\<close> from the cursor \<open>start\<close>: \<open>Inl\<close> with the value it
  returns, or \<open>Inr\<close> with the next cursor and the new total. A panic of \<open>AutoClaimPending\<close> is
  not an error the caller sees.
\<close>

definition recover_pass ::
  "(string \<Rightarrow> uuid result) \<Rightarrow> 'e LedgerConsumer \<Rightarrow> string \<Rightarrow> nat \<Rightarrow> 'e world \<Rightarrow>
     ((nat \<times> go_error option) outcome + string \<times> nat) \<times> 'e world"
where
  "recover_pass uuid_Parse C start totalProcessed w =
     (let cf = lc_config C in
      case AutoClaimPending (lc_streams C) (lc_AuctionID cf) (lc_Group cf) (lc_Consumer cf)
          (recovery_min_idle cf) start (recovery_batch_size cf) (snd w) of
        (Inl (Panicked p), e') \<Rightarrow> (Inl Process_ends, fst w, e')
      | (Inl err, e') \<Rightarrow>
          (Inl (Returns (totalProcessed,
             Some (ErrWrap ''recover pending Redis entries from cursor'' err))), fst w, e')
      | (Inr (entries, nextStart), e') \<Rightarrow>
          (case processEntries uuid_Parse C 0 entries (fst w, e') of
             (Process_ends, w') \<Rightarrow> (Inl Process_ends, w')
           | (Returns (_, Some err), w') \<Rightarrow> (Inl (Returns (totalProcessed, Some err)), w')
           | (Returns (processed, None), w') \<Rightarrow>
               if nextStart = ''0-0'' then (Inl (Returns (totalProcessed + processed, None)), w')
               else if nextStart = start \<and> entries = [] then
                 (Inl (Returns (totalProcessed + processed,
                    Some (ErrNew ''XAUTOCLAIM cursor did not advance''))), w')
               else (Inr (nextStart, totalProcessed + processed), w')))"

partial_function (option) recover_loop ::
  "(string \<Rightarrow> uuid result) \<Rightarrow> 'e LedgerConsumer \<Rightarrow> string \<Rightarrow> nat \<Rightarrow> 'e world \<Rightarrow>
     ((nat \<times> go_error option) outcome \<times> 'e world) option"
where
  "recover_loop uuid_Parse C start totalProcessed w =
     (case recover_pass uuid_Parse C start totalProcessed w of
        (Inl r, w') \<Rightarrow> Some (r, w')
      | (Inr (nextStart, total'), w') \<Rightarrow> recover_loop uuid_Parse C nextStart total' w')"

definition recoverPending ::
  "(string \<Rightarrow> uuid result) \<Rightarrow> 'e LedgerConsumer \<Rightarrow> 'e world \<Rightarrow>
     ((nat \<times> go_error option) outcome \<times> 'e world) option"
where
  "recoverPending uuid_Parse C w =
     (if recovery_batch_size (lc_config C) \<le>s 0 then
        Some (Returns (0, Some (ErrNew ''recovery batch size must be positive'')), w)
      else recover_loop uuid_Parse C ''0-0'' 0 w)"

definition RecoverPending ::
  "(string \<Rightarrow> uuid result) \<Rightarrow> 'e LedgerConsumer \<Rightarrow> 'e world \<Rightarrow>
     ((nat \<times> go_error option) outcome \<times> 'e world) option"
where
  "RecoverPending uuid_Parse C w =
     (case ensureGroup C w of
        (Some err, w') \<Rightarrow> Some (Returns (0, Some err), w')
      | (None, w') \<Rightarrow> recoverPending uuid_Parse C w')"

section \<open>The main loops\<close>

text \<open>
  \<open>ProcessExactly\<close>: the loop, and the function. The counts are the 64-bit \<open>int\<close> of the program.
\<close>

partial_function (option) process_exactly_loop ::
  "(string \<Rightarrow> uuid result) \<Rightarrow> 'e LedgerConsumer \<Rightarrow> int64 \<Rightarrow> int64 \<Rightarrow> 'e world \<Rightarrow>
     (go_error option outcome \<times> 'e world) option"
where
  "process_exactly_loop uuid_Parse C expectedCount processed w =
     (if processed <s expectedCount then
        (let remaining = expectedCount - processed;
             readCount = (if remaining <s lc_BatchSize (lc_config C) then remaining
               else lc_BatchSize (lc_config C)) in
         case processBatch uuid_Parse C readCount w of
           (Process_ends, w') \<Rightarrow> Some (Process_ends, w')
         | (Returns (_, Some err), w') \<Rightarrow> Some (Returns (Some err), w')
         | (Returns (batchProcessed, None), w') \<Rightarrow>
             process_exactly_loop uuid_Parse C expectedCount
               (processed + word_of_nat batchProcessed) w')
      else Some (Returns None, w))"

definition ProcessExactly ::
  "(string \<Rightarrow> uuid result) \<Rightarrow> 'e LedgerConsumer \<Rightarrow> int64 \<Rightarrow> 'e world \<Rightarrow>
     (go_error option outcome \<times> 'e world) option"
where
  "ProcessExactly uuid_Parse C expectedCount w =
     (if expectedCount \<le>s 0 then
        Some (Returns (Some (ErrNew ''expected count must be positive'')), w)
      else
        (case ensureGroup C w of
           (Some err, w') \<Rightarrow> Some (Returns (Some err), w')
         | (None, w') \<Rightarrow> process_exactly_loop uuid_Parse C expectedCount 0 w'))"

text \<open>
  The error of a pass of \<open>Run\<close>: nothing once the context is done, otherwise the error.
\<close>

definition unless_done ::
  "('e \<Rightarrow> bool \<times> 'e) \<Rightarrow> go_error \<Rightarrow> 'e world \<Rightarrow> go_error option outcome \<times> 'e world"
where
  "unless_done ctx_err err w =
     (case ctx_err (snd w) of
        (True, e') \<Rightarrow> (Returns None, fst w, e')
      | (False, e') \<Rightarrow> (Returns (Some err), fst w, e'))"

partial_function (option) ledger_loop ::
  "(string \<Rightarrow> uuid result) \<Rightarrow> ('e \<Rightarrow> bool \<times> 'e) \<Rightarrow> 'e LedgerConsumer \<Rightarrow> 'e world \<Rightarrow>
     (go_error option outcome \<times> 'e world) option"
where
  "ledger_loop uuid_Parse ctx_err C w =
     (case recoverPending uuid_Parse C w of
        None \<Rightarrow> None
      | Some (Process_ends, w1) \<Rightarrow> Some (Process_ends, w1)
      | Some (Returns (_, Some err), w1) \<Rightarrow>
          Some (unless_done ctx_err (ErrWrap ''recover pending entries'' err) w1)
      | Some (Returns (_, None), w1) \<Rightarrow>
          (case processBatch uuid_Parse C (lc_BatchSize (lc_config C)) w1 of
             (Process_ends, w2) \<Rightarrow> Some (Process_ends, w2)
           | (Returns (_, Some err), w2) \<Rightarrow> Some (unless_done ctx_err err w2)
           | (Returns (_, None), w2) \<Rightarrow> ledger_loop uuid_Parse ctx_err C w2))"

definition ledger_Run ::
  "(string \<Rightarrow> uuid result) \<Rightarrow> ('e \<Rightarrow> bool \<times> 'e) \<Rightarrow> 'e LedgerConsumer \<Rightarrow> 'e world \<Rightarrow>
     (go_error option outcome \<times> 'e world) option"
where
  "ledger_Run uuid_Parse ctx_err C w =
     (case ensureGroup C w of
        (Some err, w') \<Rightarrow> Some (Returns (Some err), w')
      | (None, w') \<Rightarrow> ledger_loop uuid_Parse ctx_err C w')"

end
