(* ===== verification/Unparsable_Bids.thy ===== *)
theory Unparsable_Bids
  imports Bid_Service Ledger_Consumer
begin

text \<open>
  The two ends of the stream together: \<^verbatim>\<open>src/internal/engine/service.go\<close> accepts a bid under
  identifiers it does not parse, \<^verbatim>\<open>src/internal/engine/stream.go\<close> carries them as text, and
  \<^verbatim>\<open>src/internal/engine/ledger_consumer.go\<close> parses them before it can persist the bid.
\<close>

section \<open>Lemmas\<close>

text \<open>What Redis hands back for the fields of an accepted request is an entry with those fields.\<close>

lemma reserved_message_parses:
  assumes "xm_ID m \<noteq> []"
    and "\<And>key. key \<in> dom (reserve_fields a b n k corr) \<Longrightarrow>
      fieldString (xm_Values m) key = fieldString (reserve_fields a b n k corr) key"
  shows "parseMessage m = Inr \<lparr> bi_AuctionID = a, bi_BidderID = b, bi_Amount = n,
    bi_IdempotencyKey = k, bi_CorrelationID = corr, se_ID = xm_ID m \<rparr>"
proof -
  have "fieldString (xm_Values m) key = fieldString (reserve_fields a b n k corr) key"
    if "key \<in> {''auction_id'', ''bidder_id'', ''amount'', ''idempotency_key'', ''correlation_id''}" for key
    using assms(2) that by (auto simp: reserve_fields_def)
  with assms(1) show ?thesis
    by (simp add: parseMessage_def reserve_fields_def fieldString_def ParseInt_sprint)
qed

text \<open>An entry that stands for no bid stops its batch, before the ledger and before the XACK.\<close>

lemma unparsable_entry_stops:
  assumes "entry_bid up (lc_AuctionID (lc_config C)) en = Inl err"
    and "lc_ValidateEntry (lc_config C) = None"
  shows "processEntries up C p (en # ens) w = (Returns (p, Some err), w)"
  using assms by (simp add: process_entry_def persist_and_ack_def persistEntry_def)

section \<open>Property\<close>

text \<open>
  C36. A retryable submission parses its idempotency key but not the other two identifiers: a
  request whose auction or bidder is no UUID is accepted and gets its stream ID. Its message is
  well formed for the reader of the stream, yet no consumer without a validation hook gets past
  the entry: the batch ends there with the error of the identifier (or of the consumer's
  auction), nothing is written to the ledger, nothing is acknowledged, and the entries behind it
  are not looked at.
\<close>

theorem service_accepts_unparsable_ids:
  assumes "NewString e = (corr, e1)" and "corr \<noteq> []"
    and "uuid_Parse k = Inr u" and "uuid_Parse a = Inl bad \<or> uuid_Parse b = Inl bad"
    and "valid_request a b n k"
    and "xadd c (''auction:'' @ a @ '':bids'') ''*'' (reserve_fields a b n k corr) e1 =
      (Inr streamID, e2)"
    and "xm_ID m \<noteq> []"
    and "\<And>key. key \<in> dom (reserve_fields a b n k corr) \<Longrightarrow>
      fieldString (xm_Values m) key = fieldString (reserve_fields a b n k corr) key"
    and "lc_ValidateEntry (lc_config C) = None"
  shows "ReserveBidWithIdempotencyKey uuid_Parse NewString (Some c) a b n k e = (Inr streamID, e2) \<and>
    (\<exists>en err. parseMessage m = Inr en \<and>
       processEntries uuid_Parse C p (en # ens) w = (Returns (p, Some err), w) \<and>
       (err = ErrNew ''stream entry auction does not match consumer auction'' \<or>
        (\<exists>x. uuid_Parse a = Inl x \<and> err = ErrWrap ''parse auction ID'' x) \<or>
        (\<exists>x. uuid_Parse b = Inl x \<and> err = ErrWrap ''parse bidder ID'' x)))"
proof -
  let ?en = "\<lparr> bi_AuctionID = a, bi_BidderID = b, bi_Amount = n, bi_IdempotencyKey = k,
    bi_CorrelationID = corr, se_ID = xm_ID m \<rparr>"
  have "parseMessage m = Inr ?en" using assms(7,8) by (rule reserved_message_parses)
  moreover have "\<exists>err. entry_bid uuid_Parse (lc_AuctionID (lc_config C)) ?en = Inl err \<and>
      (err = ErrNew ''stream entry auction does not match consumer auction'' \<or>
       (\<exists>x. uuid_Parse a = Inl x \<and> err = ErrWrap ''parse auction ID'' x) \<or>
       (\<exists>x. uuid_Parse b = Inl x \<and> err = ErrWrap ''parse bidder ID'' x))"
    using assms(4) by (auto simp: entry_bid_def attempt_def split: sum.split)
  moreover have "ReserveBidWithIdempotencyKey uuid_Parse NewString (Some c) a b n k e =
      (Inr streamID, e2)"
    using assms(1-6) by (simp add: ReserveBidWithIdempotencyKey_def reserveBid_run)
  ultimately show ?thesis using unparsable_entry_stops [OF _ assms(9)] by blast
qed

text \<open>The auction is a UUID and the bidder is not.\<close>

definition half_uuid_Parse :: "string \<Rightarrow> uuid result" where
  "half_uuid_Parse s =
     (if s = ''A'' then Inr 7 else if s = ''K'' then Inr 3 else Inl (ErrDriver ''invalid UUID''))"

definition echo_consumer :: "unit LedgerConsumer" where
  "echo_consumer =
     \<lparr> lc_streams = Some echo_client, lc_ledger = (\<lambda>db e. (good_driver, db, e)),
       lc_config = \<lparr> lc_AuctionID = ''A'', lc_Group = ''g'', lc_Consumer = ''c'', lc_BatchSize = 20,
         lc_BlockPeriod = 2000000000, lc_ValidateEntry = None, lc_RecoveryMinIdle = 0,
         lc_RecoveryBatchSize = 0, lc_AfterPersistBeforeAck = None, lc_BeforeAck = None \<rparr> \<rparr>"

lemma service_accepts_unparsable_ids_witness:
  "ReserveBidWithIdempotencyKey half_uuid_Parse (\<lambda>e. (''c'', e)) (Some echo_client) ''A'' ''B'' 5 ''K'' () =
     (Inr ''5-0'', ()) \<and>
   (\<exists>en err. parseMessage
        \<lparr> xm_ID = ''5-0'', xm_Values = reserve_fields ''A'' ''B'' 5 ''K'' ''c'' \<rparr> = Inr en \<and>
      processEntries half_uuid_Parse echo_consumer 0 (en # []) (one_auction_db, ()) =
        (Returns (0, Some err), one_auction_db, ()) \<and>
      (err = ErrNew ''stream entry auction does not match consumer auction'' \<or>
       (\<exists>x. half_uuid_Parse ''A'' = Inl x \<and> err = ErrWrap ''parse auction ID'' x) \<or>
       (\<exists>x. half_uuid_Parse ''B'' = Inl x \<and> err = ErrWrap ''parse bidder ID'' x)))"
  by (rule service_accepts_unparsable_ids
      [where corr = "''c''" and u = 3 and bad = "ErrDriver ''invalid UUID''"])
    (simp_all add: half_uuid_Parse_def valid_request_def echo_client_def echo_consumer_def)

end
