(* ===== verification/Append_Errors.thy ===== *)
theory Append_Errors
  imports Auction_House
begin

text \<open>
  Every error of the production append of \<^verbatim>\<open>src/internal/store/postgres/anti_snipe.go\<close>, traced to
  its cause. In a database the append itself keeps well formed, the numbers it assigns never run
  into a unique index, its UPDATE always finds the counter, and its event is always new.
\<close>

section \<open>Causes\<close>

text \<open>The error at the bottom of a chain of \<open>%w\<close>.\<close>

fun cause :: "go_error \<Rightarrow> go_error" where
  "cause (ErrWrap s e) = cause e"
| "cause e = e"

definition explained :: "pg_driver \<Rightarrow> BidToPersist \<Rightarrow> time \<Rightarrow> database \<Rightarrow> go_error \<Rightarrow> bool" where
  "explained d bid t db err \<longleftrightarrow>
     (\<exists>c f. fault d c = Some f \<and> cause err = ErrDriver f) \<or>
     (IsZero t \<and> err = ErrNew ''authoritative bid submission time is required'') \<or>
     (auctions db (bp_AuctionID bid) = None \<and> cause err = ErrNoRows) \<or>
     (\<exists>r cl. auctions db (bp_AuctionID bid) = Some r \<and> recorded db (bid_key bid) = None \<and>
        scan_time d (effective_close_time r) = Some cl \<and> cl \<le> t \<and> err = ErrBidAtOrAfterClose) \<or>
     (sint (bp_Amount bid) \<le> 0 \<and> cause err = ErrDriver ''violates bids_amount_check'') \<or>
     (sint (last_seq db (bp_AuctionID bid)) = 2 ^ 63 - 1 \<and>
        cause err = ErrDriver ''violates bids_sequence_no_check'') \<or>
     ((\<exists>q \<in> set (outbox db). ob_id q = generated_uuid d) \<and>
        cause err = ErrDriver ''violates outbox_pkey'') \<or>
     (\<exists>r. auctions db (bp_AuctionID bid) = Some r \<and>
        (scan_time d (effective_close_time r) = None \<or>
         scan_time d (effective_close_time (row_after d r t)) = None) \<and>
        cause err = ErrDriver ''cannot scan timestamptz'') \<or>
     (\<exists>r. auctions db (bp_AuctionID bid) = Some r \<and> extend_auction_row d r t = Inl (cause err) \<and>
        cause err = ErrDriver ''timestamp out of range'')"

lemma attempt_Inl_iff:
  "attempt msg r k = Inl err \<longleftrightarrow>
     (\<exists>e. r = Inl e \<and> err = ErrWrap msg e) \<or> (\<exists>x. r = Inr x \<and> k x = Inl err)"
  by (cases r) (auto simp: attempt_def)

lemma on_server_Inl:
  "on_server d c r = Inl e \<longleftrightarrow>
     (\<exists>f. fault d c = Some f \<and> e = ErrDriver f) \<or> (fault d c = None \<and> r = Inl e)"
  by (auto simp: on_server_def split: option.split)

lemma on_server_Inr: "on_server d c r = Inr x \<longleftrightarrow> fault d c = None \<and> r = Inr x"
  by (auto simp: on_server_def split: option.split)

lemma explained_fault: "fault d c = Some f \<Longrightarrow> cause err = ErrDriver f \<Longrightarrow> explained d bid t db err"
  by (auto simp: explained_def)

section \<open>The statements in a well-formed database\<close>

lemma extend_row_Inl:
  assumes "auction_row_ok r" and "extend_auction_row d r t = Inl e"
  shows "e = ErrDriver ''timestamp out of range''"
proof -
  have add: "e' = ErrDriver ''timestamp out of range''" if "ts_add u i = Inl e'" for u i e'
    using that by (cases u) (auto split: if_splits)
  have "sint (extension_count r) \<noteq> 2 ^ 31 - 1"
    and "auction_row_ok (r\<lparr>effective_close_time := u, extension_count := extension_count r + 1\<rparr>)"
    if "extension_count r <s max_extensions r" for u
    using that assms(1) sint32_bounds [of "max_extensions r"] sint32_add [of "extension_count r" 1]
    by (auto simp: auction_row_ok_def word_sle_eq word_sless_alt)
  with assms(2) show ?thesis
    by (auto simp: extend_auction_row_def Let_def split: if_splits sum.splits dest: add)
qed

lemma extend_Inl:
  assumes "auctions db a = Some r" and "auction_row_ok r" and "sql_extend_auction d db a t = Inl e"
  shows "(scan_time d (effective_close_time (row_after d r t)) = None \<and>
      e = ErrDriver ''cannot scan timestamptz'') \<or>
    (extend_auction_row d r t = Inl e \<and> e = ErrDriver ''timestamp out of range'')"
  using assms extend_row_Inl
  by (auto simp: sql_extend_auction_def row_after_def split: sum.splits option.splits)

lemma extend_outbox: "sql_extend_auction d db a t = Inr (db', x) \<Longrightarrow> outbox db' = outbox db"
  by (auto simp: sql_extend_auction_def split: sum.splits option.splits)

lemma insert_event_Inl:
  assumes "outbox_inv db" and "outbox db4 = outbox db"
    and "\<not> sequence_taken db (bp_AuctionID bid) n" and "0 < sint n"
    and "insertBidAcceptedOutbox d db4 bid n t cl x k = Inl err"
  shows "(\<exists>f. fault d CallInsertOutbox = Some f \<and> cause err = ErrDriver f) \<or>
    ((\<exists>q \<in> set (outbox db). ob_id q = generated_uuid d) \<and> cause err = ErrDriver ''violates outbox_pkey'')"
  using assms no_event_for_free_number [OF assms(1,3)]
  by (auto simp: insertBidAcceptedOutbox_def attempt_Inl_iff on_server_Inl on_server_Inr
      sql_insert_outbox_def btrim_def violates_def word_sless_alt split: if_splits)

section \<open>The new bid\<close>

lemma append_new_bid_explained:
  assumes inv: "house_inv db" and r: "auctions db (bp_AuctionID bid) = Some r"
    and none: "recorded db (bid_key bid) = None"
    and err: "append_new_bid d bid t c k db = Inl err"
  shows "explained d bid t db err"
proof -
  let ?a = "bp_AuctionID bid" and ?n = "last_seq db (bp_AuctionID bid) + 1"
  have led: "ledger_inv db" and out: "outbox_inv db" using inv by (simp_all add: house_inv_def)
  have row: "auction_row_ok r" and ai: "auction_inv db ?a"
    using led r by (auto simp: ledger_inv_def)
  have find: "find_bid db ?a (bp_IdempotencyKey bid) = None"
    using none by (simp add: recorded_None_iff)
  have ens: "sql_ensure_sequence db ?a = Inr (ensured db ?a)" using r by (simp add: sql)
  note lock = sql_lock_sequence_ensured [of db ?a]
  have last: "0 \<le> sint (last_seq db ?a)" using auction_inv_last [OF ai] by simp
  show ?thesis
  proof (cases "0 < sint ?n \<and> 0 < sint (bp_Amount bid)")
    case False
    have "sint (last_seq db ?a) = 2 ^ 63 - 1" if "\<not> 0 < sint ?n"
    proof (rule ccontr)
      assume "sint (last_seq db ?a) \<noteq> 2 ^ 63 - 1"
      then have "sint ?n = sint (last_seq db ?a) + 1"
        using last sint64_bounds [of "last_seq db ?a"] by (subst sint64_add) simp_all
      with that last show False by simp
    qed
    with False err ens lock show ?thesis
      by (auto simp: append_new_bid_def attempt_Inl_iff on_server_Inl on_server_Inr Let_def
          sql_insert_bid_on_conflict_def check_bid_def violates_def word_sless_alt bid_row_of_def
          explained_def split: if_splits)
  next
    case True
    then have pos: "0 < sint ?n" and amount: "0 < sint (bp_Amount bid)" by simp_all
    have free: "\<not> sequence_taken db ?a ?n" using ai pos by (rule auction_inv_next_free)
    let ?db2 = "(ensured db ?a)\<lparr>bids := bids db @ [bid_row_of bid ?n]\<rparr>"
    have ins: "sql_insert_bid_on_conflict (ensured db ?a) (bid_row_of bid ?n) = Inr (?db2, Some ?n)"
      using find free pos amount r by (simp add: sql)
    have adv: "sql_advance_sequence ?db2 ?a ?n (last_seq db ?a) = Inr (appended db bid, 1)"
      using pos by (simp add: sql_advance_sequence_def word_sless_alt appended_via_ensured)
    from err ens lock ins adv consider c f where "fault d c = Some f" "cause err = ErrDriver f"
      | "extend_and_publish d bid t c k ?n (appended db bid) = Inl err"
      by (auto simp: append_new_bid_def attempt_Inl_iff on_server_Inl on_server_Inr Let_def)
    then show ?thesis
    proof cases
      case 2
      from 2 consider f where "fault d CallExtend = Some f" "cause err = ErrDriver f"
        | e where "sql_extend_auction d (appended db bid) ?a t = Inl e" "cause err = cause e"
        | db4 y cl x k' e where "sql_extend_auction d (appended db bid) ?a t = Inr (db4, y)"
            "insertBidAcceptedOutbox d db4 bid ?n t cl x k' = Inl e" "cause err = cause e"
        by (auto simp: extend_and_publish_def attempt_Inl_iff on_server_Inl on_server_Inr Let_def
            split: option.splits prod.splits)
      then show ?thesis
      proof cases
        case 2
        have "auctions (appended db bid) ?a = Some r" using r by simp
        from extend_Inl [OF this row 2(1)] 2(2) r show ?thesis by (auto simp: explained_def)
      next
        case 3
        have "outbox db4 = outbox db" using extend_outbox [OF 3(1)] by simp
        from insert_event_Inl [OF out this free pos 3(2)] 3(3) show ?thesis
          by (auto simp: explained_def)
      qed (rule explained_fault)
    qed (rule explained_fault)
  qed
qed

lemma append_explained:
  assumes inv: "house_inv db" and call: "AppendBidIdempotentWithAntiSnipe d bid t db = (db', Inl err)"
  shows "explained d bid t db err"
proof (cases "IsZero t")
  case True
  with call show ?thesis by (auto simp: AppendBidIdempotentWithAntiSnipe_def explained_def)
next
  case nz: False
  let ?a = "bp_AuctionID bid"
  from call nz consider c f where "fault d c = Some f" "cause err = ErrDriver f"
    | e where "sql_lock_auction d db ?a = Inl e" "cause err = cause e"
    | cl k where "sql_lock_auction d db ?a = Inr (cl, k)" "recorded db (bid_key bid) = None"
        "\<not> Before t cl \<and> err = ErrBidAtOrAfterClose \<or> append_new_bid d bid t cl k db = Inl err"
  proof (cases "on_server d CallCheckExisting
      (sql_select_sequence db ?a (bp_IdempotencyKey bid))")
    case (Inr n)
    with call nz that(1) [of CallCommit] that(1) [of CallBegin] that(1) [of CallLockAuction] that(2)
    show ?thesis
      by (auto simp: AppendBidIdempotentWithAntiSnipe_def run_tx_def commit_tx_def attempt_Inl_iff
          on_server_Inl split: option.splits sum.splits)
  next
    case (Inl e)
    then have e: "(\<exists>f. fault d CallCheckExisting = Some f \<and> e = ErrDriver f) \<or>
        (e = ErrNoRows \<and> recorded db (bid_key bid) = None)"
      by (auto simp: on_server_Inl sql_select_sequence_def recorded_None_iff split: option.splits)
    with Inl call nz that(1) [of CallCommit] that(1) [of CallBegin] that(1) [of CallLockAuction]
      that(1) [of CallCheckExisting] that(2) that(3)
    show ?thesis
      by (auto simp: AppendBidIdempotentWithAntiSnipe_def run_tx_def commit_tx_def attempt_Inl_iff
          on_server_Inl on_server_Inr split: option.splits sum.splits if_splits)
  qed
  then show ?thesis
  proof cases
    case 2
    then show ?thesis
      by (auto simp: sql_lock_auction_def explained_def split: option.splits)
  next
    case 3
    from 3(1) obtain r where r: "auctions db ?a = Some r"
      "scan_time d (effective_close_time r) = Some cl"
      by (auto simp: sql_lock_auction_def split: option.splits)
    note new = append_new_bid_explained [OF inv r(1) 3(2)]
    from 3(3) show ?thesis
    proof
      assume "\<not> Before t cl \<and> err = ErrBidAtOrAfterClose"
      with 3(2) r show ?thesis by (simp add: explained_def Before_def not_less)
    qed (rule new)
  qed (rule explained_fault)
qed

section \<open>An error of the COMMIT\<close>

text \<open>The same server, but its COMMITs are acknowledged.\<close>

definition commits_cleanly :: "pg_driver \<Rightarrow> pg_driver" where
  "commits_cleanly d = d\<lparr>fault := (fault d)(CallCommit := None), commit_applied := False\<rparr>"

lemma commits_cleanly_simps [simp]:
  "fault (commits_cleanly d) CallCommit = None"
  "c \<noteq> CallCommit \<Longrightarrow> fault (commits_cleanly d) c = fault d c"
  "encode_time (commits_cleanly d) = encode_time d" "scan_time (commits_cleanly d) = scan_time d"
  "generated_uuid (commits_cleanly d) = generated_uuid d"
  "clock_timestamp (commits_cleanly d) = clock_timestamp d"
  by (simp_all add: commits_cleanly_def)

lemma commits_cleanly_calls:
  "on_server (commits_cleanly d) CallLockAuction = on_server d CallLockAuction"
  "on_server (commits_cleanly d) CallCheckExisting = on_server d CallCheckExisting"
  "on_server (commits_cleanly d) CallEnsureSequence = on_server d CallEnsureSequence"
  "on_server (commits_cleanly d) CallLockSequence = on_server d CallLockSequence"
  "on_server (commits_cleanly d) CallInsertBid = on_server d CallInsertBid"
  "on_server (commits_cleanly d) CallReadExisting = on_server d CallReadExisting"
  "on_server (commits_cleanly d) CallAdvanceSequence = on_server d CallAdvanceSequence"
  "on_server (commits_cleanly d) CallExtend = on_server d CallExtend"
  "on_server (commits_cleanly d) CallInsertOutbox = on_server d CallInsertOutbox"
  by (rule ext, simp add: on_server_def)+

lemma commits_cleanly_sql:
  "sql_lock_auction (commits_cleanly d) db a = sql_lock_auction d db a"
  "sql_extend_auction (commits_cleanly d) db a t = sql_extend_auction d db a t"
  "bid_accepted_payload (commits_cleanly d) bid n t cl x k = bid_accepted_payload d bid n t cl x k"
  "sql_insert_outbox (commits_cleanly d) db ty agg a n p = sql_insert_outbox d db ty agg a n p"
  unfolding sql_lock_auction_def sql_extend_auction_def extend_auction_row_def
    bid_accepted_payload_def sql_insert_outbox_def commits_cleanly_simps
  by (rule refl)+

text \<open>The statements of the append between BEGIN and COMMIT.\<close>

definition append_body ::
  "pg_driver \<Rightarrow> BidToPersist \<Rightarrow> time \<Rightarrow> database \<Rightarrow>
     (database \<times> string \<times> AntiSnipeAppendResult) result"
where
  "append_body d bid t db =
     attempt ''lock auction for anti-snipe processing''
       (on_server d CallLockAuction (sql_lock_auction d db (bp_AuctionID bid)))
       (\<lambda>(cl, k).
          case on_server d CallCheckExisting
              (sql_select_sequence db (bp_AuctionID bid) (bp_IdempotencyKey bid)) of
            Inr n \<Rightarrow>
              Inr (db, ''commit crash-recovery duplicate observation'',
                \<lparr> SequenceNumber = n, Inserted = False, Extended = False,
                  EffectiveCloseTime = cl, ExtensionCount = k \<rparr>)
          | Inl err \<Rightarrow>
              if \<not> errors_is err ErrNoRows then
                Inl (ErrWrap ''check existing bid before crash recovery'' err)
              else if \<not> Before t cl then Inl ErrBidAtOrAfterClose
              else append_new_bid d bid t cl k db)"

lemma append_as_tx:
  "\<not> IsZero t \<Longrightarrow> AppendBidIdempotentWithAntiSnipe d bid t db =
     run_tx d db ''begin anti-snipe transaction'' (append_body d bid t db)"
  by (simp add: AppendBidIdempotentWithAntiSnipe_def append_body_def)

lemma append_body_cleanly [simp]: "append_body (commits_cleanly d) bid t db = append_body d bid t db"
  unfolding append_body_def append_new_bid_def extend_and_publish_def insertBidAcceptedOutbox_def
    commits_cleanly_calls commits_cleanly_sql
  by (rule refl)

lemma append_body_message:
  assumes "append_body d bid t db = Inr (work, msg, res)"
  shows "work = db \<or> msg = ''commit anti-snipe transaction''"
proof (cases "on_server d CallCheckExisting
    (sql_select_sequence db (bp_AuctionID bid) (bp_IdempotencyKey bid))")
  case (Inr n)
  with assms show ?thesis by (auto simp: append_body_def attempt_def split: sum.splits)
next
  case (Inl err)
  with assms have "errors_is err ErrNoRows"
    by (auto simp: append_body_def attempt_def split: sum.splits if_splits)
  with Inl have "find_bid db (bp_AuctionID bid) (bp_IdempotencyKey bid) = None"
    by (auto simp: on_server_Inl sql_select_sequence_def split: option.splits)
  with assms Inl show ?thesis
    by (auto simp: append_body_def append_new_bid_def extend_and_publish_def attempt_def
        on_server_Inr Let_def sql bid_row_of_def split: sum.splits if_splits option.splits prod.splits)
qed

lemma append_error_outcome:
  assumes call: "AppendBidIdempotentWithAntiSnipe d bid t db = (db', Inl err)"
  shows "db' = db \<or>
    (\<exists>e res. fault d CallCommit = Some e \<and> commit_applied d \<and>
       err = ErrWrap ''commit anti-snipe transaction'' (ErrDriver e) \<and>
       AppendBidIdempotentWithAntiSnipe (commits_cleanly d) bid t db = (db', Inr res) \<and>
       recorded db' (bid_key bid) = Some (SequenceNumber res))"
proof (cases "db' = db \<or> IsZero t")
  case True
  with call show ?thesis by (auto simp: AppendBidIdempotentWithAntiSnipe_def)
next
  case False
  then have nz: "\<not> IsZero t" and moved: "db' \<noteq> db" by simp_all
  from call moved obtain msg res e where body: "append_body d bid t db = Inr (db', msg, res)"
    and e: "fault d CallCommit = Some e" "commit_applied d" "fault d CallBegin = None"
      "err = ErrWrap msg (ErrDriver e)"
    unfolding append_as_tx [OF nz]
    by (auto simp: run_tx_def commit_tx_def split: option.splits sum.splits if_splits)
  have msg: "msg = ''commit anti-snipe transaction''"
    using append_body_message [OF body] moved by simp
  have clean: "AppendBidIdempotentWithAntiSnipe (commits_cleanly d) bid t db = (db', Inr res)"
    using body e(3) unfolding append_as_tx [OF nz] by (simp add: run_tx_def commit_tx_def)
  from anti_snipe_Inr [OF this] have "recorded db' (bid_key bid) = Some (SequenceNumber res)"
    using anti_snipe_commits_recorded(1) by blast
  with e msg clean show ?thesis by blast
qed

text \<open>A server that commits and loses the connection.\<close>

definition lost_ack_driver :: pg_driver where
  "lost_ack_driver = good_driver\<lparr>fault := (\<lambda>c. if c = CallCommit then Some ''reset'' else None),
     commit_applied := True\<rparr>"

lemma lost_ack_simps [simp]:
  "fault lost_ack_driver c = (if c = CallCommit then Some ''reset'' else None)"
  "commit_applied lost_ack_driver"
  by (simp_all add: lost_ack_driver_def)

lemma lost_ack_cleanly: "commits_cleanly lost_ack_driver = good_driver"
  by (intro pg_driver.equality)
    (auto simp: lost_ack_driver_def good_driver_def commits_cleanly_def)

lemma first_bid_moves: "house_after_first \<noteq> one_auction_db"
proof
  assume "house_after_first = one_auction_db"
  then have "outbox house_after_first = outbox one_auction_db" by simp
  then show False by (simp add: house_after_first_def)
qed

lemma lost_ack_first:
  "AppendBidIdempotentWithAntiSnipe lost_ack_driver first_bid 5000000 one_auction_db =
     (house_after_first, Inl (ErrWrap ''commit anti-snipe transaction'' (ErrDriver ''reset'')))"
proof -
  have nz: "\<not> IsZero 5000000" by (simp add: IsZero_def zero_time_def)
  have "append_body lost_ack_driver first_bid 5000000 one_auction_db =
      append_body good_driver first_bid 5000000 one_auction_db"
    by (simp flip: lost_ack_cleanly)
  moreover from anti_snipe_first obtain msg where
    b: "append_body good_driver first_bid 5000000 one_auction_db =
      Inr (house_after_first, msg, first_answer)"
    unfolding append_as_tx [OF nz] by (auto dest: run_tx_Inr)
  ultimately show ?thesis
    using append_body_message [OF b] first_bid_moves
    by (simp add: append_as_tx [OF nz] run_tx_def commit_tx_def)
qed

section \<open>Properties\<close>

text \<open>
  C19. All or nothing: a call that returns an error left the database as it was, unless its error
  is that of the COMMIT and the COMMIT took effect; then the database is what the call leaves
  that succeeds, and the key is recorded under the number that call reports.
\<close>

theorem anti_snipe_error_is_atomic:
  assumes "AppendBidIdempotentWithAntiSnipe d bid t db = (db', Inl err)"
  shows "db' = db \<or>
    (\<exists>e res. fault d CallCommit = Some e \<and> commit_applied d \<and>
       err = ErrWrap ''commit anti-snipe transaction'' (ErrDriver e) \<and>
       AppendBidIdempotentWithAntiSnipe (commits_cleanly d) bid t db = (db', Inr res) \<and>
       recorded db' (bid_key bid) = Some (SequenceNumber res))"
  using assms by (rule append_error_outcome)

lemma anti_snipe_error_is_atomic_witness:
  "\<exists>res. AppendBidIdempotentWithAntiSnipe (commits_cleanly lost_ack_driver) first_bid 5000000
       one_auction_db = (house_after_first, Inr res) \<and>
     recorded house_after_first (bid_key first_bid) = Some (SequenceNumber res)"
  using anti_snipe_error_is_atomic [OF lost_ack_first] first_bid_moves by blast

text \<open>
  C16. The append fails only for the reasons it should: in a well-formed database every error comes
  from a call that failed, a missing submission time or auction, a new bid at or after the close,
  an amount that is not positive, the end of the 63-bit counter, an id the server drew twice, a
  close time the driver cannot scan, or an extension out of the range of the type. The numbers of the code run into no unique index of the bids or
  the events and into no CHECK of the counters, and \<open>expected one row\<close> is never reported.
\<close>

theorem append_errors_have_causes:
  assumes "house_inv db" and "AppendBidIdempotentWithAntiSnipe d bid t db = (db', Inl err)"
  shows "(\<exists>c f. fault d c = Some f \<and> cause err = ErrDriver f) \<or>
    (IsZero t \<and> err = ErrNew ''authoritative bid submission time is required'') \<or>
    (auctions db (bp_AuctionID bid) = None \<and> cause err = ErrNoRows) \<or>
    (\<exists>r cl. auctions db (bp_AuctionID bid) = Some r \<and> recorded db (bid_key bid) = None \<and>
       scan_time d (effective_close_time r) = Some cl \<and> cl \<le> t \<and> err = ErrBidAtOrAfterClose) \<or>
    (sint (bp_Amount bid) \<le> 0 \<and> cause err = ErrDriver ''violates bids_amount_check'') \<or>
    (sint (last_seq db (bp_AuctionID bid)) = 2 ^ 63 - 1 \<and>
       cause err = ErrDriver ''violates bids_sequence_no_check'') \<or>
    ((\<exists>q \<in> set (outbox db). ob_id q = generated_uuid d) \<and>
       cause err = ErrDriver ''violates outbox_pkey'') \<or>
    (\<exists>r. auctions db (bp_AuctionID bid) = Some r \<and>
       (scan_time d (effective_close_time r) = None \<or>
        scan_time d (effective_close_time (row_after d r t)) = None) \<and>
       cause err = ErrDriver ''cannot scan timestamptz'') \<or>
    (\<exists>r. auctions db (bp_AuctionID bid) = Some r \<and> extend_auction_row d r t = Inl (cause err) \<and>
       cause err = ErrDriver ''timestamp out of range'')"
  using append_explained [OF assms] unfolding explained_def .

lemma append_errors_have_causes_witness:
  "\<exists>err. AppendBidIdempotentWithAntiSnipe good_driver first_bid 1000000000000 one_auction_db =
       (one_auction_db, Inl err) \<and> cause err \<noteq> ErrDriver ''violates uq_bids_auction_sequence''"
proof -
  have "AppendBidIdempotentWithAntiSnipe good_driver first_bid 1000000000000 one_auction_db =
      (one_auction_db, Inl ErrBidAtOrAfterClose)"
    by (rule anti_snipe_late_run [where r = open_auction and c = 1000000000000])
      (simp_all add: open_auction_def IsZero_def zero_time_def)
  with append_errors_have_causes [OF _ this] show ?thesis
    by (auto simp: ErrBidAtOrAfterClose_def)
qed

end
