(* ===== verification/Commit_Before_Ack.thy ===== *)
theory Commit_Before_Ack
  imports Ledger_Consumer
begin

text \<open>
  The rule of \<^verbatim>\<open>src/docs/decisions/001-commit-before-ack.md\<close> for the ledger consumer: an entry
  leaves the pending list of the group only when its bid is in the ledger, or when it was
  rejected. Proved of every world that consumers of the group reach from each other, one after
  another, with crashes between the COMMIT and the acknowledgement, failing transactions,
  unacknowledged COMMITs and failing hooks.
\<close>

section \<open>What is relied on\<close>

text \<open>
  \<open>acked\<close> shows, of the environment, the IDs acknowledged in the group, and \<open>content\<close> is the
  entry the stream holds under an ID. Redis acknowledges no ID it was not given, and delivers
  under an ID what was stored under it, however often it delivers it.
\<close>

definition delivers :: "(string \<Rightarrow> BidStreamEntry) \<Rightarrow> XMessage list \<Rightarrow> bool" where
  "delivers content ms \<longleftrightarrow>
     (\<forall>m \<in> set ms. \<forall>en. parseMessage m = Inr en \<longrightarrow> en = content (xm_ID m))"

definition redis_honest ::
  "('e \<Rightarrow> string set) \<Rightarrow> (string \<Rightarrow> BidStreamEntry) \<Rightarrow> 'e redis_client \<Rightarrow> bool"
where
  "redis_honest acked content c \<longleftrightarrow>
     (\<forall>k g ids e. acked (snd (xack c k g ids e)) \<subseteq> acked e \<union> set ids) \<and>
     (\<forall>k g s e. acked (snd (xgroup_create_mkstream c k g s e)) \<subseteq> acked e) \<and>
     (\<forall>g n ks cnt b e. acked (snd (xreadgroup c g n ks cnt b e)) \<subseteq> acked e \<and>
        (case fst (xreadgroup c g n ks cnt b e) of
           Inl _ \<Rightarrow> True | Inr ss \<Rightarrow> delivers content (concat (map snd ss)))) \<and>
     (\<forall>k g n idle s cnt e. acked (snd (xautoclaim c k g n idle s cnt e)) \<subseteq> acked e \<and>
        (case fst (xautoclaim c k g n idle s cnt e) of
           Inl _ \<Rightarrow> True | Inr (ms, _) \<Rightarrow> delivers content ms))"

text \<open>
  What others may do to the world while the consumer waits for them: keep the invariant, keep
  what is recorded, acknowledge nothing in this group.
\<close>

definition world_keeps :: "('e \<Rightarrow> string set) \<Rightarrow> 'e world \<Rightarrow> 'e world \<Rightarrow> bool" where
  "world_keeps acked w w' \<longleftrightarrow>
     acked (snd w') \<subseteq> acked (snd w) \<and>
     (house_inv (fst w) \<longrightarrow> house_inv (fst w') \<and>
       (\<forall>k n. recorded (fst w) k = Some n \<longrightarrow> recorded (fst w') k = Some n))"

definition hook_keeps :: "('e \<Rightarrow> string set) \<Rightarrow> ('e world \<Rightarrow> 'r \<times> 'e world) \<Rightarrow> bool" where
  "hook_keeps acked h \<longleftrightarrow> (\<forall>w. world_keeps acked w (snd (h w)))"

text \<open>A consumer of the auction \<open>A\<close> whose Redis, server and hooks behave that way.\<close>

definition consumer_honest ::
  "('e \<Rightarrow> string set) \<Rightarrow> (string \<Rightarrow> BidStreamEntry) \<Rightarrow> string \<Rightarrow> 'e LedgerConsumer \<Rightarrow> bool"
where
  "consumer_honest acked content A C \<longleftrightarrow>
     lc_AuctionID (lc_config C) = A \<and>
     (\<forall>c. lc_streams C = Some c \<longrightarrow> redis_honest acked content c) \<and>
     (\<forall>w. world_keeps acked w (snd (lc_ledger C (fst w) (snd w)))) \<and>
     (\<forall>h en. lc_ValidateEntry (lc_config C) = Some h \<longrightarrow> hook_keeps acked (h en)) \<and>
     (\<forall>h en res. lc_AfterPersistBeforeAck (lc_config C) = Some h \<longrightarrow> hook_keeps acked (h en res)) \<and>
     (\<forall>h en. lc_BeforeAck (lc_config C) = Some h \<longrightarrow> hook_keeps acked (h en))"

section \<open>What is promised\<close>

text \<open>The bid of an entry is in the ledger.\<close>

definition settled ::
  "(string \<Rightarrow> uuid result) \<Rightarrow> string \<Rightarrow> database \<Rightarrow> BidStreamEntry \<Rightarrow> bool"
where
  "settled uuid_Parse A db en \<longleftrightarrow>
     (\<exists>bid t. entry_bid uuid_Parse A en = Inr (bid, t) \<and> recorded db (bid_key bid) \<noteq> None)"

text \<open>
  The entries a run turns away. \<open>turns_away\<close> is what the validator answers about an entry in the
  world in which the consumer asks it; \<open>turned_away\<close> collects these entries along a run of
  \<open>processEntries\<close>, and the others along a batch and a recovery pass.
\<close>

definition turns_away :: "'e LedgerConsumer \<Rightarrow> BidStreamEntry \<Rightarrow> 'e world \<Rightarrow> bool" where
  "turns_away C en w \<longleftrightarrow>
     (case lc_ValidateEntry (lc_config C) of
        None \<Rightarrow> False
      | Some validate \<Rightarrow>
          (case fst (validate en w) of Inl err \<Rightarrow> False | Inr v \<Rightarrow> \<not> Accepted v))"

fun turned_away ::
  "(string \<Rightarrow> uuid result) \<Rightarrow> 'e LedgerConsumer \<Rightarrow> BidStreamEntry list \<Rightarrow> 'e world \<Rightarrow>
     BidStreamEntry list"
where
  "turned_away uuid_Parse C [] w = []"
| "turned_away uuid_Parse C (en # ens) w =
     (if turns_away C en w then [en] else []) @
     (case process_entry uuid_Parse C en w of
        (Returns None, w') \<Rightarrow> turned_away uuid_Parse C ens w'
      | _ \<Rightarrow> [])"

definition batch_rejects ::
  "(string \<Rightarrow> uuid result) \<Rightarrow> 'e LedgerConsumer \<Rightarrow> int64 \<Rightarrow> 'e world \<Rightarrow> BidStreamEntry list"
where
  "batch_rejects uuid_Parse C count w =
     (let cf = lc_config C in
      case ReadGroup (lc_streams C) (lc_AuctionID cf) (lc_Group cf) (lc_Consumer cf) count
          (lc_BlockPeriod cf) (snd w) of
        (Inl err, e') \<Rightarrow> []
      | (Inr entries, e') \<Rightarrow> turned_away uuid_Parse C entries (fst w, e'))"

definition pass_rejects ::
  "(string \<Rightarrow> uuid result) \<Rightarrow> 'e LedgerConsumer \<Rightarrow> string \<Rightarrow> 'e world \<Rightarrow> BidStreamEntry list"
where
  "pass_rejects uuid_Parse C start w =
     (let cf = lc_config C in
      case AutoClaimPending (lc_streams C) (lc_AuctionID cf) (lc_Group cf) (lc_Consumer cf)
          (recovery_min_idle cf) start (recovery_batch_size cf) (snd w) of
        (Inl err, e') \<Rightarrow> []
      | (Inr (entries, nextStart), e') \<Rightarrow> turned_away uuid_Parse C entries (fst w, e'))"

definition accounted ::
  "(string \<Rightarrow> uuid result) \<Rightarrow> ('e \<Rightarrow> string set) \<Rightarrow> (string \<Rightarrow> BidStreamEntry) \<Rightarrow> string \<Rightarrow>
     BidStreamEntry set \<Rightarrow> string set \<Rightarrow> 'e world \<Rightarrow> bool"
where
  "accounted uuid_Parse acked content A R S w \<longleftrightarrow>
     house_inv (fst w) \<and>
     (\<forall>i \<in> acked (snd w). i \<in> S \<or> settled uuid_Parse A (fst w) (content i) \<or> content i \<in> R)"

lemma settled_keeps:
  "world_keeps acked w w' \<Longrightarrow> house_inv (fst w) \<Longrightarrow> settled up A (fst w) en \<Longrightarrow>
     settled up A (fst w') en"
  unfolding world_keeps_def settled_def by (metis not_None_eq)

lemma accounted_keeps:
  assumes "world_keeps acked w w'" and "accounted up acked content A R S w"
  shows "accounted up acked content A R S w'"
proof -
  have inv: "house_inv (fst w)" "house_inv (fst w')" and sub: "acked (snd w') \<subseteq> acked (snd w)"
    using assms by (simp_all add: accounted_def world_keeps_def)
  show ?thesis
    using assms(2) inv sub settled_keeps [OF assms(1) inv(1)]
    unfolding accounted_def by blast
qed

section \<open>Every part of the loop keeps it\<close>

lemma honest_redis:
  assumes "consumer_honest acked content A C" and "lc_streams C = Some c"
  shows "redis_honest acked content c" and "lc_AuctionID (lc_config C) = A"
  using assms by (simp_all add: consumer_honest_def)

lemma redis_xack:
  assumes "redis_honest acked content c" and "xack c k g ids e = (r, e')"
  shows "acked e' \<subseteq> acked e \<union> set ids"
proof -
  have "acked (snd (xack c k g ids e)) \<subseteq> acked e \<union> set ids"
    using assms(1) by (simp only: redis_honest_def)
  with assms(2) show ?thesis by simp
qed

lemma redis_xgroup:
  assumes "redis_honest acked content c" and "xgroup_create_mkstream c k g s e = (r, e')"
  shows "acked e' \<subseteq> acked e"
proof -
  have "acked (snd (xgroup_create_mkstream c k g s e)) \<subseteq> acked e"
    using assms(1) by (simp only: redis_honest_def)
  with assms(2) show ?thesis by simp
qed

lemma redis_xreadgroup:
  assumes "redis_honest acked content c" and "xreadgroup c g n ks cnt b e = (r, e')"
  shows "acked e' \<subseteq> acked e \<and>
    (case r of Inl _ \<Rightarrow> True | Inr ss \<Rightarrow> delivers content (concat (map snd ss)))"
proof -
  have "acked (snd (xreadgroup c g n ks cnt b e)) \<subseteq> acked e \<and>
    (case fst (xreadgroup c g n ks cnt b e) of
       Inl _ \<Rightarrow> True | Inr ss \<Rightarrow> delivers content (concat (map snd ss)))"
    using assms(1) by (simp only: redis_honest_def)
  with assms(2) show ?thesis by simp
qed

lemma redis_xautoclaim:
  assumes "redis_honest acked content c" and "xautoclaim c k g n idle s cnt e = (r, e')"
  shows "acked e' \<subseteq> acked e \<and> (case r of Inl _ \<Rightarrow> True | Inr (ms, _) \<Rightarrow> delivers content ms)"
proof -
  have "acked (snd (xautoclaim c k g n idle s cnt e)) \<subseteq> acked e \<and>
    (case fst (xautoclaim c k g n idle s cnt e) of
       Inl _ \<Rightarrow> True | Inr (ms, _) \<Rightarrow> delivers content ms)"
    using assms(1) by (simp only: redis_honest_def)
  with assms(2) show ?thesis by simp
qed

lemma honest_pool:
  assumes "consumer_honest acked content A C" and "lc_ledger C (fst w) (snd w) = (d, w')"
  shows "world_keeps acked w w'"
proof -
  have "world_keeps acked w (snd (lc_ledger C (fst w) (snd w)))"
    using assms(1) by (simp only: consumer_honest_def)
  with assms(2) show ?thesis by simp
qed

lemma hook_keeps_run: "hook_keeps acked h \<Longrightarrow> h w = (r, w') \<Longrightarrow> world_keeps acked w w'"
  by (metis hook_keeps_def snd_conv)

lemma honest_hooks:
  assumes "consumer_honest acked content A C"
  shows "lc_ValidateEntry (lc_config C) = Some hv \<Longrightarrow> hook_keeps acked (hv en)"
    and "lc_AfterPersistBeforeAck (lc_config C) = Some ha \<Longrightarrow> hook_keeps acked (ha en res)"
    and "lc_BeforeAck (lc_config C) = Some hb \<Longrightarrow> hook_keeps acked (hb en)"
  using assms by (simp_all add: consumer_honest_def)

lemma world_keeps_refl [simp]: "world_keeps acked w w"
  by (simp add: world_keeps_def)

lemma world_keeps_trans:
  "world_keeps acked w w1 \<Longrightarrow> world_keeps acked w1 w2 \<Longrightarrow> world_keeps acked w w2"
  unfolding world_keeps_def by blast

lemma world_keeps_env:
  "acked e' \<subseteq> acked e \<Longrightarrow> world_keeps acked (db, e) (db, e')"
  by (simp add: world_keeps_def)

lemma ack_entry_accounted:
  assumes "consumer_honest acked content A C" and "accounted up acked content A R S w"
    and "settled up A (fst w) en \<or> en \<in> R" and "content (se_ID en) = en"
    and "ack_entry C msg en w = (r, w')"
  shows "accounted up acked content A R S w'"
proof (cases "lc_streams C")
  case None
  with assms show ?thesis by (auto simp: ack_entry_def Ack_def)
next
  case (Some c)
  note redis = honest_redis(1) [OF assms(1) Some]
  obtain r' e' where ack: "Ack (Some c) (lc_AuctionID (lc_config C)) (lc_Group (lc_config C))
      [se_ID en] (snd w) = (r', e')"
    by (cases "Ack (Some c) (lc_AuctionID (lc_config C)) (lc_Group (lc_config C)) [se_ID en] (snd w)")
  have sub: "acked e' \<subseteq> acked (snd w) \<union> {se_ID en}"
  proof (cases "e' = snd w")
    case False
    with ack obtain r1 where "xack c (StreamKey (lc_AuctionID (lc_config C)))
        (lc_Group (lc_config C)) [se_ID en] (snd w) = (r1, e')"
      by (auto simp: Ack_def split: if_splits prod.splits option.splits)
    from redis_xack [OF redis this] have "acked e' \<subseteq> acked (snd w) \<union> set [se_ID en]" .
    then show ?thesis by simp
  qed auto
  have w': "w' = (fst w, e')"
    using assms(5) Some ack by (auto simp: ack_entry_def split: option.splits)
  show ?thesis
    unfolding accounted_def w' fst_conv snd_conv
  proof (intro conjI ballI)
    show "house_inv (fst w)" using assms(2) by (simp add: accounted_def)
    fix i assume "i \<in> acked e'"
    with sub consider "i \<in> acked (snd w)" | "i = se_ID en" by blast
    then show "i \<in> S \<or> settled up A (fst w) (content i) \<or> content i \<in> R"
    proof cases
      case 1
      then show ?thesis using assms(2) by (simp add: accounted_def)
    next
      case 2
      then show ?thesis using assms(3,4) by auto
    qed
  qed
qed

lemma persistEntry_accounted:
  assumes "consumer_honest acked content A C" and "accounted up acked content A R S w"
    and "persistEntry up C en w = (r, w')"
  shows "accounted up acked content A R S w' \<and> (\<forall>res. r = Inr res \<longrightarrow> settled up A (fst w') en)"
proof (cases "entry_bid up A en")
  case (Inl err)
  with assms show ?thesis
    by (auto simp: persistEntry_def consumer_honest_def)
next
  case (Inr bt)
  obtain bid t where bt: "bt = (bid, t)" by (cases bt)
  obtain d db e where pool: "lc_ledger C (fst w) (snd w) = (d, db, e)"
    by (metis prod.collapse)
  obtain db' ar where app: "AppendBidIdempotentWithAntiSnipe d bid t db = (db', ar)"
    by (cases "AppendBidIdempotentWithAntiSnipe d bid t db")
  have A: "lc_AuctionID (lc_config C) = A"
    using assms(1) by (simp add: consumer_honest_def)
  have k1: "world_keeps acked w (db, e)" using assms(1) pool by (rule honest_pool)
  have acc: "accounted up acked content A R S (db, e)"
    using k1 assms(2) by (rule accounted_keeps)
  then have inv: "house_inv db" by (simp add: accounted_def)
  have w': "w' = (db', e)" and r: "r = Inr res \<Longrightarrow> \<exists>x. ar = Inr x" for res
    using assms(3) A Inr bt pool app
    by (auto simp: persistEntry_def split: sum.splits)
  have "world_keeps acked (db, e) (db', e)"
    using anti_snipe_house_inv [OF inv app] anti_snipe_outcome [OF app] anti_snipe_commits_recorded(3)
    by (fastforce simp: world_keeps_def)
  then have acc': "accounted up acked content A R S (db', e)" using acc by (rule accounted_keeps)
  have "settled up A db' en" if "r = Inr res" for res
  proof -
    from r [OF that] app obtain x where "AppendBidIdempotentWithAntiSnipe d bid t db = (db', Inr x)"
      by blast
    then have "recorded db' (bid_key bid) = Some (SequenceNumber x)"
      using anti_snipe_Inr anti_snipe_commits_recorded(1) by blast
    with Inr bt show ?thesis by (auto simp: settled_def)
  qed
  with acc' w' show ?thesis by simp
qed

lemma after_persist_accounted:
  assumes "consumer_honest acked content A C" and "accounted up acked content A R S w"
    and "settled up A (fst w) en" and "content (se_ID en) = en"
    and "after_persist C en res w = (r, w')"
  shows "accounted up acked content A R S w'"
proof -
  obtain o1 w1 where h1: "(case lc_AfterPersistBeforeAck (lc_config C) of
      None \<Rightarrow> (Returns (), w) | Some h \<Rightarrow> h en res w) = (o1, w1)"
    by (metis prod.collapse)
  obtain o2 w2 where h2: "(case lc_BeforeAck (lc_config C) of
      None \<Rightarrow> (None, w1) | Some h \<Rightarrow> h en w1) = (o2, w2)"
    by (metis prod.collapse)
  have k1: "world_keeps acked w w1"
  proof (cases "lc_AfterPersistBeforeAck (lc_config C)")
    case (Some h)
    with h1 have "h en res w = (o1, w1)" by simp
    with honest_hooks(2) [OF assms(1) Some] show ?thesis by (rule hook_keeps_run)
  qed (use h1 in simp)
  have k2: "world_keeps acked w1 w2"
  proof (cases "lc_BeforeAck (lc_config C)")
    case (Some h)
    with h2 have "h en w1 = (o2, w2)" by simp
    with honest_hooks(3) [OF assms(1) Some] show ?thesis by (rule hook_keeps_run)
  qed (use h2 in simp)
  have a1: "accounted up acked content A R S w1" using k1 assms(2) by (rule accounted_keeps)
  have a2: "accounted up acked content A R S w2" using k2 a1 by (rule accounted_keeps)
  have "house_inv (fst w)" "house_inv (fst w1)"
    using assms(2) a1 by (simp_all add: accounted_def)
  then have s2: "settled up A (fst w2) en"
    using settled_keeps [OF k1 _ assms(3)] settled_keeps [OF k2] by blast
  show ?thesis
  proof (cases "o1 = Process_ends \<or> o2 \<noteq> None")
    case True
    with assms(5) h1 h2 a1 a2 show ?thesis
      by (auto simp: after_persist_def split: outcome.splits)
  next
    case False
    then have "ack_entry C ''ack committed Redis entry'' en w2 = (r, w')"
      using assms(5) h1 h2 by (auto simp: after_persist_def split: outcome.splits)
    then show ?thesis
      using ack_entry_accounted [OF assms(1) a2 _ assms(4)] s2 by blast
  qed
qed

lemma persist_and_ack_accounted:
  assumes "consumer_honest acked content A C" and "accounted up acked content A R S w"
    and "content (se_ID en) = en" and "persist_and_ack up C en w = (r, w')"
  shows "accounted up acked content A R S w'"
proof -
  obtain pr w1 where p: "persistEntry up C en w = (pr, w1)" by (cases "persistEntry up C en w")
  note acc = persistEntry_accounted [OF assms(1,2) p]
  with assms(3,4) p show ?thesis
    by (cases pr) (auto simp: persist_and_ack_def intro: after_persist_accounted [OF assms(1)])
qed

lemma process_entry_accounted:
  assumes "consumer_honest acked content A C" and "turns_away C en w \<Longrightarrow> en \<in> R"
    and "accounted up acked content A R S w"
    and "content (se_ID en) = en" and "process_entry up C en w = (r, w')"
  shows "accounted up acked content A R S w'"
proof (cases "lc_ValidateEntry (lc_config C)")
  case None
  with assms show ?thesis
    by (auto simp: process_entry_def intro: persist_and_ack_accounted)
next
  case (Some h)
  obtain v w1 where v: "h en w = (v, w1)" by (cases "h en w")
  have "world_keeps acked w w1"
    using honest_hooks(1) [OF assms(1) Some] v by (rule hook_keeps_run)
  then have acc: "accounted up acked content A R S w1" using assms(3) by (rule accounted_keeps)
  show ?thesis
  proof (cases "\<exists>x. v = Inr x \<and> \<not> Accepted x")
    case True
    then have "turns_away C en w" using Some v by (auto simp: turns_away_def)
    moreover have "ack_entry C ''ack rejected Redis entry'' en w1 = (r, w')"
      using True assms(5) Some v by (auto simp: process_entry_def)
    ultimately show ?thesis
      using ack_entry_accounted [OF assms(1) acc _ assms(4)] assms(2) by blast
  next
    case False
    with assms(4,5) Some v acc show ?thesis
      by (cases v) (auto simp: process_entry_def intro: persist_and_ack_accounted [OF assms(1)])
  qed
qed

lemma processEntries_accounted:
  assumes "consumer_honest acked content A C"
  shows "set (turned_away up C ens w) \<subseteq> R \<Longrightarrow> accounted up acked content A R S w \<Longrightarrow>
    (\<And>en. en \<in> set ens \<Longrightarrow> content (se_ID en) = en) \<Longrightarrow>
    processEntries up C n ens w = (r, w') \<Longrightarrow> accounted up acked content A R S w'"
proof (induction ens arbitrary: n w)
  case (Cons en ens)
  obtain o1 w1 where p: "process_entry up C en w = (o1, w1)" by (cases "process_entry up C en w")
  have "content (se_ID en) = en" using Cons.prems(3) by simp
  moreover have "turns_away C en w \<Longrightarrow> en \<in> R" using Cons.prems(1) by simp
  ultimately
  have "accounted up acked content A R S w1"
    using process_entry_accounted [OF assms _ Cons.prems(2) _ p] by blast
  with Cons p show ?case by (auto split: outcome.splits option.splits)
qed simp

lemma parse_messages_set:
  assumes "parse_messages what es ms = Inr es'"
  shows "set es' \<subseteq> set es \<union> {en. \<exists>m \<in> set ms. parseMessage m = Inr en}"
  using assms
proof (induction ms arbitrary: es)
  case (Cons m ms)
  then show ?case by (cases "parseMessage m") (auto, fastforce)
qed simp

lemma parse_streams_set:
  assumes "parse_streams es ss = Inr es'"
  shows "set es' \<subseteq> set es \<union> {en. \<exists>m \<in> set (concat (map snd ss)). parseMessage m = Inr en}"
  using assms
proof (induction es ss rule: parse_streams.induct)
  case (2 es k ms ss)
  then obtain es1 where e1: "parse_messages ''parse Redis Stream entry'' es ms = Inr es1"
    and e2: "parse_streams es1 ss = Inr es'"
    by (auto split: sum.splits)
  have "{en. \<exists>m \<in> set (concat (map snd ((k, ms) # ss))). parseMessage m = Inr en} =
      {en. \<exists>m \<in> set ms. parseMessage m = Inr en} \<union>
      {en. \<exists>m \<in> set (concat (map snd ss)). parseMessage m = Inr en}"
    by auto
  with parse_messages_set [OF e1] 2(1) [OF e1 e2] show ?case by blast
qed simp

lemma delivered_content:
  assumes "delivers content ms" and "m \<in> set ms" and "parseMessage m = Inr en"
  shows "content (se_ID en) = en"
  using assms parseMessage_ID [OF assms(3)] by (auto simp: delivers_def)

lemma ReadGroup_honest:
  assumes "redis_honest acked content c" and "ReadGroup (Some c) a g n cnt b e = (r, e')"
  shows "acked e' \<subseteq> acked e \<and> (\<forall>es en. r = Inr es \<longrightarrow> en \<in> set es \<longrightarrow> content (se_ID en) = en)"
proof -
  obtain r1 e1 where x: "xreadgroup c g n [StreamKey a, ''>''] cnt b e = (r1, e1)"
    by (cases "xreadgroup c g n [StreamKey a, ''>''] cnt b e")
  from assms(2) x consider "r = Inr []" "e' = e1" | "\<exists>err. r = Inl err" "e' = e \<or> e' = e1"
    | ss where "r1 = Inr ss" "r = parse_streams [] ss" "e' = e1"
    by (auto simp: ReadGroup_def split: if_splits sum.splits)
  then show ?thesis
  proof cases
    case 3
    have "delivers content (concat (map snd ss))"
      using redis_xreadgroup [OF assms(1) x] 3(1) by simp
    then have "content (se_ID en) = en" if "r = Inr es" and "en \<in> set es" for es en
    proof -
      have "set es \<subseteq> {en. \<exists>m \<in> set (concat (map snd ss)). parseMessage m = Inr en}"
        using parse_streams_set [of "[]" ss es] that(1) 3(2) by simp
      with that(2) obtain m where "m \<in> set (concat (map snd ss))" and "parseMessage m = Inr en"
        by blast
      then show ?thesis using \<open>delivers content (concat (map snd ss))\<close> by (intro delivered_content)
    qed
    with redis_xreadgroup [OF assms(1) x] 3(3) show ?thesis by simp
  qed (use redis_xreadgroup [OF assms(1) x] in auto)
qed

lemma AutoClaim_honest:
  assumes "redis_honest acked content c" and "AutoClaimPending (Some c) a g n idle st cnt e = (r, e')"
  shows "acked e' \<subseteq> acked e \<and>
    (\<forall>es nxt en. r = Inr (es, nxt) \<longrightarrow> en \<in> set es \<longrightarrow> content (se_ID en) = en)"
proof -
  let ?st = "if st = [] then ''0-0'' else st"
  obtain r1 e1 where x: "xautoclaim c (StreamKey a) g n idle ?st cnt e = (r1, e1)"
    by (cases "xautoclaim c (StreamKey a) g n idle ?st cnt e")
  from assms(2) x consider "\<exists>err. r = Inl err" "e' = e \<or> e' = e1"
    | ms nxt es where "r1 = Inr (ms, nxt)" "parse_messages ''parse claimed Redis entry'' [] ms = Inr es"
      "r = Inr (es, nxt)" "e' = e1"
    by (auto simp: AutoClaimPending_def Let_def split: if_splits sum.splits)
  then show ?thesis
  proof cases
    case 2
    have "delivers content ms" using redis_xautoclaim [OF assms(1) x] 2(1) by simp
    then have "content (se_ID en) = en" if "en \<in> set es" for en
    proof -
      have "set es \<subseteq> {en. \<exists>m \<in> set ms. parseMessage m = Inr en}"
        using parse_messages_set [OF 2(2)] by simp
      with that obtain m where "m \<in> set ms" and "parseMessage m = Inr en" by blast
      then show ?thesis using \<open>delivers content ms\<close> by (intro delivered_content)
    qed
    with redis_xautoclaim [OF assms(1) x] 2 show ?thesis by simp
  qed (use redis_xautoclaim [OF assms(1) x] in auto)
qed

lemma accounted_env:
  assumes "accounted up acked content A R S w" and "acked e' \<subseteq> acked (snd w)"
  shows "accounted up acked content A R S (fst w, e')"
  using assms by (auto simp: accounted_def)

lemma processBatch_accounted:
  assumes "consumer_honest acked content A C" and "set (batch_rejects up C cnt w) \<subseteq> R"
    and "accounted up acked content A R S w" and "processBatch up C cnt w = (r, w')"
  shows "accounted up acked content A R S w'"
proof (cases "lc_streams C")
  case None
  with assms(3,4) show ?thesis by (auto simp: processBatch_def ReadGroup_def Let_def)
next
  case (Some c)
  let ?cf = "lc_config C"
  obtain rr e1 where rg: "ReadGroup (Some c) (lc_AuctionID ?cf) (lc_Group ?cf) (lc_Consumer ?cf) cnt
      (lc_BlockPeriod ?cf) (snd w) = (rr, e1)"
    by (metis prod.collapse)
  note h = ReadGroup_honest [OF honest_redis(1) [OF assms(1) Some] rg]
  have acc: "accounted up acked content A R S (fst w, e1)"
    using assms(3) conjunct1 [OF h] by (rule accounted_env)
  show ?thesis
  proof (cases rr)
    case (Inl err)
    with assms(4) Some rg acc show ?thesis by (auto simp: processBatch_def Let_def)
  next
    case (Inr es)
    with assms(4) Some rg have "processEntries up C 0 es (fst w, e1) = (r, w')"
      by (simp add: processBatch_def Let_def)
    then show ?thesis
      using h Inr assms(2) Some rg
      by (intro processEntries_accounted [OF assms(1) _ acc]) (auto simp: batch_rejects_def Let_def)
  qed
qed

lemma recover_pass_accounted:
  assumes "consumer_honest acked content A C" and "set (pass_rejects up C st w) \<subseteq> R"
    and "accounted up acked content A R S w" and "recover_pass up C st n w = (r, w')"
  shows "accounted up acked content A R S w'"
proof (cases "lc_streams C")
  case None
  with assms(3,4) show ?thesis
    by (auto simp: recover_pass_def AutoClaimPending_def Let_def split: if_splits)
next
  case (Some c)
  let ?cf = "lc_config C"
  obtain rr e1 where ac: "AutoClaimPending (Some c) (lc_AuctionID ?cf) (lc_Group ?cf) (lc_Consumer ?cf)
      (recovery_min_idle ?cf) st (recovery_batch_size ?cf) (snd w) = (rr, e1)"
    by (metis prod.collapse)
  note h = AutoClaim_honest [OF honest_redis(1) [OF assms(1) Some] ac]
  have acc: "accounted up acked content A R S (fst w, e1)"
    using assms(3) conjunct1 [OF h] by (rule accounted_env)
  show ?thesis
  proof (cases rr)
    case (Inl err)
    with assms(4) Some ac acc show ?thesis
      by (auto simp: recover_pass_def Let_def split: go_error.splits)
  next
    case (Inr x)
    obtain es nxt where x: "x = (es, nxt)" by (cases x)
    obtain o1 w1 where pe: "processEntries up C 0 es (fst w, e1) = (o1, w1)"
      by (cases "processEntries up C 0 es (fst w, e1)")
    have acc1: "accounted up acked content A R S w1"
      using h Inr x assms(2) Some ac
      by (intro processEntries_accounted [OF assms(1) _ acc _ pe]) (auto simp: pass_rejects_def Let_def)
    have "w' = w1"
      using assms(4) Some ac Inr x pe
      by (auto simp: recover_pass_def Let_def split: outcome.splits option.splits if_splits prod.splits)
    with acc1 show ?thesis by simp
  qed
qed

lemma ensureGroup_accounted:
  assumes "consumer_honest acked content A C"
    and "accounted up acked content A R S w" and "ensureGroup C w = (r, w')"
  shows "accounted up acked content A R S w'"
proof (cases "lc_streams C")
  case None
  with assms(2,3) show ?thesis
    by (auto simp: ensureGroup_def EnsureConsumerGroup_def Let_def split: if_splits)
next
  case (Some c)
  let ?cf = "lc_config C"
  obtain r1 e1 where eg: "EnsureConsumerGroup (Some c) (lc_AuctionID ?cf) (lc_Group ?cf) (snd w) = (r1, e1)"
    by (metis prod.collapse)
  have "acked e1 \<subseteq> acked (snd w)"
    using eg redis_xgroup [OF honest_redis(1) [OF assms(1) Some]]
    by (auto simp: EnsureConsumerGroup_def split: if_splits prod.splits option.splits)
  with assms(2) have "accounted up acked content A R S (fst w, e1)" by (rule accounted_env)
  with assms(2,3) Some eg show ?thesis
    by (auto simp: ensureGroup_def Let_def split: if_splits option.splits)
qed

section \<open>Reachable worlds\<close>

lemma accounted_start: "house_inv (fst w) \<Longrightarrow> accounted up acked content A {} (acked (snd w)) w"
  by (simp add: accounted_def)

lemma accounted_mono:
  "accounted up acked content A R S w \<Longrightarrow> R \<subseteq> R' \<Longrightarrow> accounted up acked content A R' S w"
  by (auto simp: accounted_def)

text \<open>
  The worlds that consumers from \<open>Cs\<close> bring about, one call into a batch, a recovery pass or the
  setup after another, with the entries their validators turned away on the way, in order. A
  call that ends the process leaves its world to the next consumer.
\<close>

inductive reaches ::
  "(string \<Rightarrow> uuid result) \<Rightarrow> 'e LedgerConsumer set \<Rightarrow> 'e world \<Rightarrow> BidStreamEntry list \<Rightarrow>
     'e world \<Rightarrow> bool"
  for up Cs
where
  reaches_refl: "reaches up Cs w [] w"
| reaches_group: "reaches up Cs w rej w1 \<Longrightarrow> C \<in> Cs \<Longrightarrow> ensureGroup C w1 = (r, w2) \<Longrightarrow>
    reaches up Cs w rej w2"
| reaches_batch: "reaches up Cs w rej w1 \<Longrightarrow> C \<in> Cs \<Longrightarrow> processBatch up C n w1 = (r, w2) \<Longrightarrow>
    reaches up Cs w (rej @ batch_rejects up C n w1) w2"
| reaches_recover: "reaches up Cs w rej w1 \<Longrightarrow> C \<in> Cs \<Longrightarrow> recover_pass up C st n w1 = (r, w2) \<Longrightarrow>
    reaches up Cs w (rej @ pass_rejects up C st w1) w2"

inductive_cases reaches_from: "reaches up Cs w rej w'"

lemma reaches_accounted:
  assumes "reaches up Cs w rej w'" and "\<And>C. C \<in> Cs \<Longrightarrow> consumer_honest acked content A C"
    and "house_inv (fst w)"
  shows "accounted up acked content A (set rej) (acked (snd w)) w'"
  using assms
proof (induction rule: reaches.induct)
  case (reaches_refl w)
  then show ?case by (simp add: accounted_start)
next
  case (reaches_group w rej w1 C r w2)
  then show ?case by (blast intro: ensureGroup_accounted)
next
  case (reaches_batch w rej w1 C n r w2)
  from reaches_batch.IH [OF reaches_batch.prems]
  have "accounted up acked content A (set (rej @ batch_rejects up C n w1)) (acked (snd w)) w1"
    by (rule accounted_mono) auto
  with reaches_batch.prems(1) [OF reaches_batch.hyps(2)] _ show ?case
    using reaches_batch.hyps(3) by (rule processBatch_accounted) simp
next
  case (reaches_recover w rej w1 C st n r w2)
  from reaches_recover.IH [OF reaches_recover.prems]
  have "accounted up acked content A (set (rej @ pass_rejects up C st w1)) (acked (snd w)) w1"
    by (rule accounted_mono) auto
  with reaches_recover.prems(1) [OF reaches_recover.hyps(2)] _ show ?case
    using reaches_recover.hyps(3) by (rule recover_pass_accounted) simp
qed

lemma reaches_trans:
  "reaches up Cs w1 rej2 w2 \<Longrightarrow> reaches up Cs w rej1 w1 \<Longrightarrow> reaches up Cs w (rej1 @ rej2) w2"
proof (induction rule: reaches.induct)
  case (reaches_batch w1 rej2 w3 C n r w4)
  then have "reaches up Cs w ((rej1 @ rej2) @ batch_rejects up C n w3) w4"
    by (blast intro: reaches.reaches_batch)
  then show ?case by simp
next
  case (reaches_recover w1 rej2 w3 C st n r w4)
  then have "reaches up Cs w ((rej1 @ rej2) @ pass_rejects up C st w3) w4"
    by (blast intro: reaches.reaches_recover)
  then show ?case by simp
qed (auto intro: reaches.reaches_group)

section \<open>The loops\<close>

text \<open>
  The entries that the loops of the consumer turn away: the same recursions as \<open>recover_loop\<close>,
  \<open>recoverPending\<close>, \<open>ledger_loop\<close> and \<open>ledger_Run\<close>, which return the list instead of the result.
\<close>

partial_function (option) recover_rejects ::
  "(string \<Rightarrow> uuid result) \<Rightarrow> 'e LedgerConsumer \<Rightarrow> string \<Rightarrow> nat \<Rightarrow> 'e world \<Rightarrow>
     BidStreamEntry list option"
where
  "recover_rejects uuid_Parse C start totalProcessed w =
     (case recover_pass uuid_Parse C start totalProcessed w of
        (Inl r, w') \<Rightarrow> Some (pass_rejects uuid_Parse C start w)
      | (Inr (nextStart, total'), w') \<Rightarrow>
          Option.bind (recover_rejects uuid_Parse C nextStart total' w')
            (\<lambda>later. Some (pass_rejects uuid_Parse C start w @ later)))"

definition pending_rejects ::
  "(string \<Rightarrow> uuid result) \<Rightarrow> 'e LedgerConsumer \<Rightarrow> 'e world \<Rightarrow> BidStreamEntry list option"
where
  "pending_rejects uuid_Parse C w =
     (if recovery_batch_size (lc_config C) \<le>s 0 then Some []
      else recover_rejects uuid_Parse C ''0-0'' 0 w)"

partial_function (option) loop_rejects ::
  "(string \<Rightarrow> uuid result) \<Rightarrow> 'e LedgerConsumer \<Rightarrow> 'e world \<Rightarrow> BidStreamEntry list option"
where
  "loop_rejects uuid_Parse C w =
     (case pending_rejects uuid_Parse C w of
        None \<Rightarrow> None
      | Some pending \<Rightarrow>
          (case recoverPending uuid_Parse C w of
             Some (Returns (_, None), w1) \<Rightarrow>
               (let read = batch_rejects uuid_Parse C (lc_BatchSize (lc_config C)) w1 in
                case processBatch uuid_Parse C (lc_BatchSize (lc_config C)) w1 of
                  (Returns (_, None), w2) \<Rightarrow>
                    Option.bind (loop_rejects uuid_Parse C w2)
                      (\<lambda>later. Some (pending @ read @ later))
                | _ \<Rightarrow> Some (pending @ read))
           | _ \<Rightarrow> Some pending))"

definition run_rejects ::
  "(string \<Rightarrow> uuid result) \<Rightarrow> 'e LedgerConsumer \<Rightarrow> 'e world \<Rightarrow> BidStreamEntry list option"
where
  "run_rejects uuid_Parse C w =
     (case ensureGroup C w of
        (Some err, w') \<Rightarrow> Some []
      | (None, w') \<Rightarrow> loop_rejects uuid_Parse C w')"

lemma recover_loop_reaches:
  assumes "recover_loop up C st n w = Some y" and "C \<in> Cs"
  shows "\<exists>rej. recover_rejects up C st n w = Some rej \<and> reaches up Cs w rej (snd y)"
proof -
  have "\<forall>Cs. C \<in> Cs \<longrightarrow> (\<exists>rej. recover_rejects up C st n w = Some rej \<and> reaches up Cs w rej (snd y))"
  proof (rule recover_loop.raw_induct [OF _ assms(1), where P = "\<lambda>up C st n w y. \<forall>Cs. C \<in> Cs \<longrightarrow>
      (\<exists>rej. recover_rejects up C st n w = Some rej \<and> reaches up Cs w rej (snd y))"], intro allI impI)
    fix loop and up :: "string \<Rightarrow> uuid result" and C :: "'a LedgerConsumer" and st n w y Cs
    assume IH: "\<And>(up :: string \<Rightarrow> uuid result) (C :: 'a LedgerConsumer) st n w y. loop up C st n w = Some y \<Longrightarrow>
        \<forall>Cs. C \<in> Cs \<longrightarrow> (\<exists>rej. recover_rejects up C st n w = Some rej \<and> reaches up Cs w rej (snd y))"
      and step: "(case recover_pass up C st n w of
          (Inl r, w') \<Rightarrow> Some (r, w')
        | (Inr (nextStart, total'), w') \<Rightarrow> loop up C nextStart total' w') = Some y"
      and C: "C \<in> Cs"
    obtain r w1 where p: "recover_pass up C st n w = (r, w1)" by (cases "recover_pass up C st n w")
    have one: "reaches up Cs w (pass_rejects up C st w) w1"
      using reaches_recover [OF reaches_refl C p] by simp
    show "\<exists>rej. recover_rejects up C st n w = Some rej \<and> reaches up Cs w rej (snd y)"
    proof (cases r)
      case (Inl ret)
      with step p one show ?thesis by (subst recover_rejects.simps) auto
    next
      case (Inr x)
      obtain nxt m where x: "x = (nxt, m)" by (cases x)
      with step p Inr have "loop up C nxt m w1 = Some y" by simp
      from IH [OF this] C obtain rej where rej: "recover_rejects up C nxt m w1 = Some rej"
        and "reaches up Cs w1 rej (snd y)"
        by blast
      then have "reaches up Cs w (pass_rejects up C st w @ rej) (snd y)"
        using one by (blast intro: reaches_trans)
      with p Inr x rej show ?thesis by (subst recover_rejects.simps) simp
    qed
  qed
  with assms(2) show ?thesis by blast
qed

lemma recoverPending_reaches:
  assumes "recoverPending up C w = Some y" and "C \<in> Cs"
  shows "\<exists>rej. pending_rejects up C w = Some rej \<and> reaches up Cs w rej (snd y)"
proof (cases "recovery_batch_size (lc_config C) \<le>s 0")
  case True
  with assms(1) show ?thesis
    by (auto simp: recoverPending_def pending_rejects_def intro: reaches_refl)
next
  case False
  with assms(1) have "recover_loop up C ''0-0'' 0 w = Some y" by (simp add: recoverPending_def)
  from recover_loop_reaches [OF this assms(2)] False show ?thesis by (simp add: pending_rejects_def)
qed

lemma unless_done_world:
  "(\<And>e. snd (ctx e) = e) \<Longrightarrow> snd (unless_done ctx err w) = w"
  by (cases w; cases "ctx (snd w)") (auto simp: unless_done_def split: bool.split dest: arg_cong [where f = snd])

lemma ledger_loop_reaches:
  assumes "ledger_loop up ctx C w = Some y" and "C \<in> Cs" and "\<And>e. snd (ctx e) = e"
  shows "\<exists>rej. loop_rejects up C w = Some rej \<and> reaches up Cs w rej (snd y)"
proof -
  have "\<forall>Cs. C \<in> Cs \<longrightarrow> (\<forall>e. snd (ctx e) = e) \<longrightarrow>
    (\<exists>rej. loop_rejects up C w = Some rej \<and> reaches up Cs w rej (snd y))"
  proof (rule ledger_loop.raw_induct [OF _ assms(1), where P = "\<lambda>up ctx C w y. \<forall>Cs. C \<in> Cs \<longrightarrow>
      (\<forall>e. snd (ctx e) = e) \<longrightarrow> (\<exists>rej. loop_rejects up C w = Some rej \<and> reaches up Cs w rej (snd y))"],
      intro allI impI)
    fix loop and up :: "string \<Rightarrow> uuid result" and ctx :: "'a \<Rightarrow> bool \<times> 'a"
      and C :: "'a LedgerConsumer" and w y Cs
    assume IH: "\<And>(up :: string \<Rightarrow> uuid result) (ctx :: 'a \<Rightarrow> bool \<times> 'a) (C :: 'a LedgerConsumer) w y.
        loop up ctx C w = Some y \<Longrightarrow>
        \<forall>Cs. C \<in> Cs \<longrightarrow> (\<forall>e. snd (ctx e) = e) \<longrightarrow>
          (\<exists>rej. loop_rejects up C w = Some rej \<and> reaches up Cs w rej (snd y))"
      and step: "(case recoverPending up C w of
          None \<Rightarrow> None
        | Some (Process_ends, w1) \<Rightarrow> Some (Process_ends, w1)
        | Some (Returns (_, Some err), w1) \<Rightarrow>
            Some (unless_done ctx (ErrWrap ''recover pending entries'' err) w1)
        | Some (Returns (_, None), w1) \<Rightarrow>
            (case processBatch up C (lc_BatchSize (lc_config C)) w1 of
               (Process_ends, w2) \<Rightarrow> Some (Process_ends, w2)
             | (Returns (_, Some err), w2) \<Rightarrow> Some (unless_done ctx err w2)
             | (Returns (_, None), w2) \<Rightarrow> loop up ctx C w2)) = Some y"
      and C: "C \<in> Cs" and ctx: "\<forall>e. snd (ctx e) = e"
    let ?n = "lc_BatchSize (lc_config C)"
    note same = unless_done_world [OF ctx [rule_format]]
    obtain o1 w1 where rec: "recoverPending up C w = Some (o1, w1)"
      using step by (cases "recoverPending up C w") auto
    from recoverPending_reaches [OF rec C] obtain pend where
      pend: "pending_rejects up C w = Some pend" and r1: "reaches up Cs w pend w1" by auto
    obtain o2 w2 where bat: "processBatch up C ?n w1 = (o2, w2)" by (metis prod.collapse)
    have r2: "reaches up Cs w (pend @ batch_rejects up C ?n w1) w2"
      using r1 C bat by (rule reaches_batch)
    show "\<exists>rej. loop_rejects up C w = Some rej \<and> reaches up Cs w rej (snd y)"
    proof (cases "\<exists>m. o1 = Returns (m, None)")
      case False
      then have "loop_rejects up C w = Some pend"
        using rec pend by (subst loop_rejects.simps) (auto split: outcome.splits option.splits)
      moreover have "snd y = w1"
        using False step rec by (auto simp: same split: outcome.splits option.splits)
      ultimately show ?thesis using r1 by blast
    next
      case go1: True
      show ?thesis
      proof (cases "\<exists>m. o2 = Returns (m, None)")
        case False
        then have "loop_rejects up C w = Some (pend @ batch_rejects up C ?n w1)"
          using go1 rec pend bat
          by (subst loop_rejects.simps) (auto simp: Let_def split: outcome.splits option.splits)
        moreover have "snd y = w2"
          using False go1 step rec bat by (auto simp: same split: outcome.splits option.splits)
        ultimately show ?thesis using r2 by blast
      next
        case True
        with go1 step rec bat have "loop up ctx C w2 = Some y" by auto
        from IH [OF this] C ctx obtain rej where rej: "loop_rejects up C w2 = Some rej"
          and "reaches up Cs w2 rej (snd y)"
          by blast
        then have "reaches up Cs w ((pend @ batch_rejects up C ?n w1) @ rej) (snd y)"
          using r2 by (blast intro: reaches_trans)
        moreover have "loop_rejects up C w = Some ((pend @ batch_rejects up C ?n w1) @ rej)"
          using go1 True rec pend bat rej by (subst loop_rejects.simps) auto
        ultimately show ?thesis by blast
      qed
    qed
  qed
  with assms(2,3) show ?thesis by blast
qed

lemma ledger_Run_reaches:
  assumes "ledger_Run up ctx C w = Some (r, w')" and "C \<in> Cs" and "\<And>e. snd (ctx e) = e"
  shows "\<exists>rej. run_rejects up C w = Some rej \<and> reaches up Cs w rej w'"
proof -
  obtain er w1 where g: "ensureGroup C w = (er, w1)" by (cases "ensureGroup C w")
  have r1: "reaches up Cs w [] w1" using reaches_refl assms(2) g by (rule reaches_group)
  show ?thesis
  proof (cases er)
    case None
    with assms(1) g have "ledger_loop up ctx C w1 = Some (r, w')" by (simp add: ledger_Run_def)
    from ledger_loop_reaches [OF this assms(2,3)] obtain rej where
      "loop_rejects up C w1 = Some rej" and "reaches up Cs w1 rej w'" by auto
    with reaches_trans [OF _ r1] None g show ?thesis by (fastforce simp: run_rejects_def)
  next
    case (Some err)
    with assms(1) g r1 show ?thesis by (auto simp: ledger_Run_def run_rejects_def)
  qed
qed

end
