(* ===== verification/Crash_Recovery.thy ===== *)
theory Crash_Recovery
  imports Commit_Before_Ack
begin

text \<open>
  What the ledger consumer does to the entries of one batch and across a crash: the counts it
  returns, the redelivery of a bid that was committed but not acknowledged, the entry that can
  never be persisted, and the end of a recovery scan.
\<close>

section \<open>Counts\<close>

lemma processEntries_run:
  assumes "processEntries up C n ens w = (Returns (m, err), w')"
  shows "\<exists>k w1. k \<le> length ens \<and> m = n + k \<and>
    processEntries up C n (take k ens) w = (Returns (m, None), w1) \<and>
    (case err of
       None \<Rightarrow> k = length ens \<and> w1 = w'
     | Some e \<Rightarrow> k < length ens \<and> process_entry up C (ens ! k) w1 = (Returns (Some e), w'))"
  using assms
proof (induction ens arbitrary: n w)
  case (Cons en ens)
  obtain o1 w1 where p: "process_entry up C en w = (o1, w1)" by (cases "process_entry up C en w")
  with Cons.prems consider e where "o1 = Returns (Some e)" "err = Some e" "m = n" "w' = w1"
    | "o1 = Returns None" "processEntries up C (n + 1) ens w1 = (Returns (m, err), w')"
    by (auto split: outcome.splits option.splits)
  then show ?case
  proof cases
    case 1
    with p show ?thesis by (intro exI [of _ 0] exI [of _ w]) simp
  next
    case 2
    from Cons.IH [OF 2(2)] obtain k w2 where "k \<le> length ens" "m = n + 1 + k"
      "processEntries up C (n + 1) (take k ens) w1 = (Returns (m, None), w2)"
      "case err of None \<Rightarrow> k = length ens \<and> w2 = w'
       | Some e \<Rightarrow> k < length ens \<and> process_entry up C (ens ! k) w2 = (Returns (Some e), w')"
      by blast
    with 2(1) p show ?thesis
      by (intro exI [of _ "Suc k"] exI [of _ w2]) (auto split: option.splits)
  qed
qed simp

section \<open>A committed entry is delivered again\<close>

text \<open>
  A consumer without validator whose ledger answers: the pool starts the transaction on the
  database as it is, no call fails, and finite times can be read.
\<close>

definition quiet_ledger :: "pg_driver \<Rightarrow> 'e LedgerConsumer \<Rightarrow> bool" where
  "quiet_ledger d C \<longleftrightarrow>
     lc_ledger C = (\<lambda>db e. (d, db, e)) \<and> lc_ValidateEntry (lc_config C) = None \<and>
     fault d = (\<lambda>_. None)"

lemma persist_new:
  assumes "quiet_ledger d C" and "entry_bid up (lc_AuctionID (lc_config C)) en = Inr (bid, t)"
    and "AppendBidIdempotentWithAntiSnipe d bid t db = (db', Inr res)"
  shows "persistEntry up C en (db, e) = (Inr (AppendBidResult.truncate res), db', e)"
  using assms by (simp add: persistEntry_def quiet_ledger_def)

lemma redelivery_run:
  assumes "quiet_ledger d C" and "entry_bid up (lc_AuctionID (lc_config C)) en = Inr (bid, t)"
    and "\<not> IsZero t" and "auctions db (bp_AuctionID bid) = Some r"
    and "scan_time d (effective_close_time r) = Some cl"
    and "recorded db (bid_key bid) = Some n"
  shows "persistEntry up C en (db, e) = (Inr \<lparr> SequenceNumber = n, Inserted = False \<rparr>, db, e)"
proof -
  have "AppendBidIdempotentWithAntiSnipe d bid t db =
    (db, Inr \<lparr> SequenceNumber = n, Inserted = False, Extended = False,
      EffectiveCloseTime = cl, ExtensionCount = extension_count r \<rparr>)"
    using assms by (intro anti_snipe_replay_run) (auto simp: quiet_ledger_def)
  then show ?thesis
    using assms(1,2) persist_new by (fastforce simp: AppendBidResult.truncate_def)
qed

lemma ack_entry_ok:
  assumes "lc_streams C = Some c" and "lc_AuctionID (lc_config C) \<noteq> []" and "lc_Group (lc_config C) \<noteq> []"
    and "xack c (StreamKey (lc_AuctionID (lc_config C))) (lc_Group (lc_config C)) [se_ID en] e =
      (None, e')"
  shows "ack_entry C msg en (db, e) = (Returns None, db, e')"
  using assms by (simp add: ack_entry_def Ack_def)

lemma process_replay:
  assumes "quiet_ledger d C" and "entry_bid up (lc_AuctionID (lc_config C)) en = Inr (bid, t)"
    and "\<not> IsZero t" and "auctions db (bp_AuctionID bid) = Some r"
    and "scan_time d (effective_close_time r) = Some cl" and "recorded db (bid_key bid) = Some n"
    and "lc_AfterPersistBeforeAck (lc_config C) = None" and "lc_BeforeAck (lc_config C) = None"
    and "lc_streams C = Some c" and "lc_AuctionID (lc_config C) \<noteq> []" and "lc_Group (lc_config C) \<noteq> []"
    and "xack c (StreamKey (lc_AuctionID (lc_config C))) (lc_Group (lc_config C)) [se_ID en] e =
      (None, e')"
  shows "process_entry up C en (db, e) = (Returns None, db, e')"
  using redelivery_run [OF assms(1-6)] assms(1,7,8) ack_entry_ok [OF assms(9-12)]
  by (simp add: process_entry_def persist_and_ack_def after_persist_def quiet_ledger_def)


section \<open>The end of a recovery scan\<close>

text \<open>
  What Redis documents of XAUTOCLAIM: the scan goes through the pending entries in the order of
  their IDs, and the cursor it returns is the ID the next call goes on from, or 0-0 at the end.
  \<open>rank\<close> counts the IDs from a cursor on.
\<close>

definition cursors_advance :: "(string \<Rightarrow> nat) \<Rightarrow> 'e redis_client \<Rightarrow> bool" where
  "cursors_advance rank c \<longleftrightarrow>
     (\<forall>k g n idle st cnt e.
        case fst (xautoclaim c k g n idle st cnt e) of
          Inl _ \<Rightarrow> True
        | Inr (_, nxt) \<Rightarrow> nxt = ''0-0'' \<or> (nxt \<noteq> [] \<and> rank nxt < rank st))"

lemma recover_pass_next:
  assumes "lc_streams C = Some c" and "cursors_advance rank c" and "st \<noteq> []"
    and "recover_pass up C st n w = (Inr (nxt, m), w')"
  shows "nxt \<noteq> [] \<and> rank nxt < rank st"
proof -
  let ?cf = "lc_config C"
  obtain r e1 where x: "xautoclaim c (StreamKey (lc_AuctionID ?cf)) (lc_Group ?cf) (lc_Consumer ?cf)
      (recovery_min_idle ?cf) st (recovery_batch_size ?cf) (snd w) = (r, e1)"
    by (metis prod.collapse)
  have "case fst (xautoclaim c (StreamKey (lc_AuctionID ?cf)) (lc_Group ?cf) (lc_Consumer ?cf)
      (recovery_min_idle ?cf) st (recovery_batch_size ?cf) (snd w)) of
        Inl _ \<Rightarrow> True
      | Inr (_, nxt) \<Rightarrow> nxt = ''0-0'' \<or> (nxt \<noteq> [] \<and> rank nxt < rank st)"
    using assms(2) by (simp only: cursors_advance_def)
  with x assms(1,3,4) show ?thesis
    by (auto simp: recover_pass_def AutoClaimPending_def Let_def
        split: if_splits sum.splits go_error.splits outcome.splits option.splits prod.splits)
qed

lemma recover_loop_ends:
  assumes "lc_streams C = Some c" and "cursors_advance rank c" and "st \<noteq> []"
  shows "\<exists>y. recover_loop up C st n w = Some y"
  using assms(3)
proof (induction "rank st" arbitrary: st n w rule: less_induct)
  case less
  obtain r w1 where p: "recover_pass up C st n w = (r, w1)" by (cases "recover_pass up C st n w")
  show ?case
  proof (cases r)
    case (Inl ret)
    with p show ?thesis by (subst recover_loop.simps) simp
  next
    case (Inr x)
    obtain nxt m where x: "x = (nxt, m)" by (cases x)
    with p Inr recover_pass_next [OF assms(1,2) less.prems] have "nxt \<noteq> []" "rank nxt < rank st"
      by auto
    then obtain y where "recover_loop up C nxt m w1 = Some y" using less.hyps by blast
    with p Inr x show ?thesis by (subst recover_loop.simps) (cases y; simp)
  qed
qed

section \<open>Sample\<close>

definition sample_uuid_Parse :: "string \<Rightarrow> uuid result" where
  "sample_uuid_Parse s =
     (if s = ''A'' then Inr 7 else if s = ''B'' then Inr 3 else if s = ''K'' then Inr 11
      else Inl (ErrDriver ''invalid UUID''))"

definition sample_consumer :: "string list LedgerConsumer" where
  "sample_consumer =
     \<lparr> lc_streams = Some one_message_client, lc_ledger = (\<lambda>db e. (good_driver, db, e)),
       lc_config = \<lparr> lc_AuctionID = ''A'', lc_Group = ''g'', lc_Consumer = ''c'', lc_BatchSize = 20,
         lc_BlockPeriod = 2000000000, lc_ValidateEntry = None, lc_RecoveryMinIdle = 0,
         lc_RecoveryBatchSize = 0, lc_AfterPersistBeforeAck = None, lc_BeforeAck = None \<rparr> \<rparr>"

definition crashing_consumer :: "string list LedgerConsumer" where
  "crashing_consumer = sample_consumer\<lparr>lc_config :=
     (lc_config sample_consumer)\<lparr>lc_AfterPersistBeforeAck := Some (\<lambda>en res w. (Process_ends, w))\<rparr>\<rparr>"

lemma StreamEntryTime_5: "StreamEntryTime ''5-0'' = Inr 5000000"
proof -
  have d: "decimal 5 = ''5''" "decimal 0 = ''0''" by (simp_all add: decimal.simps go_std)
  have "ParseInt ''5'' = Inr (5 :: int64)" "ParseUint ''0'' = Inr 0"
    using ParseInt_decimal [of 5] ParseUint_decimal [of 0] d by simp_all
  then show ?thesis
    using StreamEntryTime_join [of "''5''" "''0''"] by (simp add: UnixMilli_def)
qed

lemma entry_bid_sample: "entry_bid sample_uuid_Parse ''A'' sample_entry = Inr (first_bid, 5000000)"
  by (simp add: entry_bid_def sample_uuid_Parse_def sample_entry_def sample_bid_def BidIngress.defs
      StreamEntryTime_5 first_bid_def)

lemma sample_entry_ID [simp]: "se_ID sample_entry = ''5-0''"
  by (simp add: sample_entry_def BidIngress.defs)

lemma sample_consumer_simps [simp]:
  "lc_streams sample_consumer = Some one_message_client"
  "lc_AuctionID (lc_config sample_consumer) = ''A''" "lc_Group (lc_config sample_consumer) = ''g''"
  "lc_ValidateEntry (lc_config sample_consumer) = None"
  "lc_AfterPersistBeforeAck (lc_config sample_consumer) = None"
  "lc_BeforeAck (lc_config sample_consumer) = None"
  by (simp_all add: sample_consumer_def)

lemma quiet_sample: "quiet_ledger good_driver sample_consumer"
  by (simp add: quiet_ledger_def fault_good_driver) (simp add: sample_consumer_def)

lemma xack_one_message [simp]: "xack one_message_client k g ids e = (None, e @ ids)"
  by (simp add: one_message_client_def)

lemma process_sample:
  "process_entry sample_uuid_Parse sample_consumer sample_entry (one_auction_db, []) =
     (Returns None, house_after_first, [''5-0''])"
  using persist_new [OF quiet_sample, of sample_uuid_Parse sample_entry first_bid 5000000
      one_auction_db house_after_first first_answer "[]"]
  by (simp add: entry_bid_sample anti_snipe_first process_entry_def persist_and_ack_def
      after_persist_def ack_entry_def Ack_def)

lemma batch_sample:
  "processBatch sample_uuid_Parse sample_consumer 20 (one_auction_db, []) =
     (Returns (1, None), house_after_first, [''5-0''])"
proof -
  have "ReadGroup (Some one_message_client) ''A'' ''g'' ''c'' 20 2000000000 [] = (Inr [sample_entry], [])"
    by (simp add: ReadGroup_def one_message_client_def sample_message_parses word_sle_eq)
  then show ?thesis
    using process_sample by (simp add: processBatch_def Let_def) (simp add: sample_consumer_def)
qed

lemma one_message_honest:
  "redis_honest set (\<lambda>_. sample_entry) one_message_client"
  by (auto simp: redis_honest_def one_message_client_def delivers_def sample_message_parses)

lemma sample_honest: "consumer_honest set (\<lambda>_. sample_entry) ''A'' sample_consumer"
  by (simp add: consumer_honest_def one_message_honest) (simp add: sample_consumer_def)

lemma no_turned_away: "lc_ValidateEntry (lc_config C) = None \<Longrightarrow> turned_away up C ens w = []"
  by (induction ens arbitrary: w)
    (auto simp: turns_away_def split: prod.split outcome.split option.split)

lemma no_validator:
  "lc_ValidateEntry (lc_config C) = None \<Longrightarrow> batch_rejects up C n w = []"
  by (simp add: batch_rejects_def no_turned_away Let_def split: prod.split sum.split)

section \<open>A crash between the COMMIT and the acknowledgement\<close>

lemma commits_close:
  assumes "anti_snipe_commits d bid t r db db' res" and "auctions db (bp_AuctionID bid) = Some r"
  shows "\<exists>r'. auctions db' (bp_AuctionID bid) = Some r' \<and>
    scan_time d (effective_close_time r') = Some (EffectiveCloseTime res)"
  using assms by (auto simp: anti_snipe_commits_def split: option.splits)

lemma crash_run:
  assumes "quiet_ledger d C" and "entry_bid up (lc_AuctionID (lc_config C)) en = Inr (bid, t)"
    and "lc_AfterPersistBeforeAck (lc_config C) = Some (\<lambda>en res w. (Process_ends, w))"
    and app: "AppendBidIdempotentWithAntiSnipe d bid t db = (db', Inr res)"
    and "quiet_ledger d C'" and "lc_AuctionID (lc_config C') = lc_AuctionID (lc_config C)"
    and "lc_AfterPersistBeforeAck (lc_config C') = None" and "lc_BeforeAck (lc_config C') = None"
    and "lc_streams C' = Some c" and "lc_AuctionID (lc_config C) \<noteq> []" and "lc_Group (lc_config C') \<noteq> []"
    and "xack c (StreamKey (lc_AuctionID (lc_config C))) (lc_Group (lc_config C')) [se_ID en] e =
      (None, e')"
  shows "process_entry up C en (db, e) = (Process_ends, db', e) \<and>
    recorded db' (bid_key bid) = Some (SequenceNumber res) \<and>
    process_entry up C' en (db', e) = (Returns None, db', e')"
proof -
  from anti_snipe_Inr [OF app] obtain row where "auctions db (bp_AuctionID bid) = Some row"
    and com: "anti_snipe_commits d bid t row db db' res" by blast
  then obtain r' where r': "auctions db' (bp_AuctionID bid) = Some r'"
    "scan_time d (effective_close_time r') = Some (EffectiveCloseTime res)"
    using commits_close by blast
  have rec: "recorded db' (bid_key bid) = Some (SequenceNumber res)"
    using com by (rule anti_snipe_commits_recorded(1))
  have nz: "\<not> IsZero t" using app by (auto simp: AppendBidIdempotentWithAntiSnipe_def)
  have "process_entry up C en (db, e) = (Process_ends, db', e)"
    using persist_new [OF assms(1,2) app] assms(1,3)
    by (simp add: process_entry_def persist_and_ack_def after_persist_def quiet_ledger_def)
  moreover have "process_entry up C' en (db', e) = (Returns None, db', e')"
    using assms r' rec nz
    by (intro process_replay [where d = d and bid = bid and t = t and r = r' and c = c
          and cl = "EffectiveCloseTime res" and n = "SequenceNumber res"]) simp_all
  ultimately show ?thesis using rec by blast
qed

section \<open>Sample runs\<close>

text \<open>A Redis that closes the connection once the message is acknowledged.\<close>

definition closing_client :: "string list redis_client" where
  "closing_client = one_message_client\<lparr>xreadgroup := (\<lambda>g c ks n b e.
     if e = [] then (Inr [(hd ks, [\<lparr> xm_ID = ''5-0'', xm_Values = sample_values \<rparr>])], e)
     else (Inl (ErrDriver ''closed''), e))\<rparr>"

definition closing_consumer :: "string list LedgerConsumer" where
  "closing_consumer = sample_consumer\<lparr>lc_streams := Some closing_client\<rparr>"

lemma closing_honest: "consumer_honest set (\<lambda>_. sample_entry) ''A'' closing_consumer"
proof -
  have "redis_honest set (\<lambda>_. sample_entry) closing_client"
    by (auto simp: redis_honest_def closing_client_def one_message_client_def delivers_def
        sample_message_parses)
  then show ?thesis
    by (simp add: consumer_honest_def closing_consumer_def) (simp add: sample_consumer_def)
qed

lemma closing_recover: "recoverPending sample_uuid_Parse closing_consumer w = Some (Returns (0, None), w)"
  by (cases w) (simp add: recoverPending_def recover_loop.simps recover_pass_def recovery_batch_size_def
      recovery_min_idle_def closing_consumer_def sample_consumer_def closing_client_def
      one_message_client_def AutoClaimPending_def Let_def word_sle_eq)

lemma closing_batch:
  "processBatch sample_uuid_Parse closing_consumer 20 (one_auction_db, []) =
     (Returns (1, None), house_after_first, [''5-0''])"
  "processBatch sample_uuid_Parse closing_consumer 20 (house_after_first, [''5-0'']) =
     (Returns (0, Some (ErrWrap ''read bid stream group''
        (ErrWrap ''read Redis consumer group'' (ErrDriver ''closed'')))), house_after_first, [''5-0''])"
proof -
  have quiet: "quiet_ledger good_driver closing_consumer"
    using quiet_sample by (simp add: quiet_ledger_def closing_consumer_def)
  have "process_entry sample_uuid_Parse closing_consumer sample_entry (one_auction_db, []) =
      (Returns None, house_after_first, [''5-0''])"
    using persist_new [OF quiet, of sample_uuid_Parse sample_entry first_bid 5000000
      one_auction_db house_after_first first_answer "[]"]
    by (simp add: closing_consumer_def entry_bid_sample anti_snipe_first process_entry_def
        persist_and_ack_def after_persist_def ack_entry_def Ack_def)
      (simp add: closing_client_def)
  then show "processBatch sample_uuid_Parse closing_consumer 20 (one_auction_db, []) =
     (Returns (1, None), house_after_first, [''5-0''])"
    by (simp add: processBatch_def ReadGroup_def Let_def)
      (simp add: closing_consumer_def closing_client_def sample_consumer_def sample_message_parses
        word_sle_eq)
  show "processBatch sample_uuid_Parse closing_consumer 20 (house_after_first, [''5-0'']) =
     (Returns (0, Some (ErrWrap ''read bid stream group''
        (ErrWrap ''read Redis consumer group'' (ErrDriver ''closed'')))), house_after_first, [''5-0''])"
    by (simp add: processBatch_def ReadGroup_def Let_def closing_consumer_def closing_client_def
        sample_consumer_def word_sle_eq)
qed

lemma run_sample:
  "ledger_Run sample_uuid_Parse (\<lambda>e. (False, e)) closing_consumer (one_auction_db, []) =
     Some (Returns (Some (ErrWrap ''read bid stream group''
       (ErrWrap ''read Redis consumer group'' (ErrDriver ''closed'')))), house_after_first, [''5-0''])"
proof -
  have "ensureGroup closing_consumer (one_auction_db, []) = (None, one_auction_db, [])"
    by (simp add: ensureGroup_def EnsureConsumerGroup_def closing_consumer_def closing_client_def
        one_message_client_def sample_consumer_def Let_def word_sle_eq)
  moreover have size: "lc_BatchSize (lc_config closing_consumer) = 20"
    by (simp add: closing_consumer_def sample_consumer_def)
  have "ledger_loop sample_uuid_Parse (\<lambda>e. (False, e)) closing_consumer (house_after_first, [''5-0'']) =
      Some (Returns (Some (ErrWrap ''read bid stream group''
       (ErrWrap ''read Redis consumer group'' (ErrDriver ''closed'')))), house_after_first, [''5-0''])"
    by (subst ledger_loop.simps) (simp add: closing_recover size closing_batch(2) unless_done_def)
  then have "ledger_loop sample_uuid_Parse (\<lambda>e. (False, e)) closing_consumer (one_auction_db, []) =
      Some (Returns (Some (ErrWrap ''read bid stream group''
       (ErrWrap ''read Redis consumer group'' (ErrDriver ''closed'')))), house_after_first, [''5-0''])"
    by (subst ledger_loop.simps) (simp add: closing_recover size closing_batch(1))
  ultimately show ?thesis by (simp add: ledger_Run_def)
qed






section \<open>Properties\<close>

text \<open>
  C1. Commit before ack: no bid is lost. In every world that consumers of a group reach, in any
  order of batches, recovery passes and restarts, with crashes and failures anywhere, the ledger
  is well formed, and every entry that is acknowledged was acknowledged to begin with, or has
  its bid recorded in the ledger, or is one of the entries \<open>rej\<close> that a validator, asked in this
  very run, turned away.
\<close>

theorem no_bid_lost:
  assumes "reaches up Cs w rej w'" and "\<And>C. C \<in> Cs \<Longrightarrow> consumer_honest acked content A C"
    and "house_inv (fst w)"
  shows "house_inv (fst w') \<and>
    (\<forall>i \<in> acked (snd w'). i \<in> acked (snd w) \<or> settled up A (fst w') (content i) \<or>
      content i \<in> set rej)"
  using reaches_accounted [OF assms] by (simp add: accounted_def)

lemma no_bid_lost_witness:
  "settled sample_uuid_Parse ''A'' house_after_first sample_entry"
proof -
  have "reaches sample_uuid_Parse {sample_consumer} (one_auction_db, []) [] (house_after_first, [''5-0''])"
    using reaches_batch [OF reaches_refl _ batch_sample] by (simp add: no_validator)
  from no_bid_lost [OF this, of set "\<lambda>_. sample_entry" "''A''"] sample_honest
  show ?thesis by auto
qed

text \<open>
  C21. The same for a whole run: when \<open>Run\<close> returns, or the process ends inside it, every entry
  acknowledged since it started is in the ledger or was turned away by the validator in this run
  (\<open>run_rejects\<close> lists these entries along the recursion of \<open>Run\<close>).
\<close>

theorem run_commits_before_ack:
  assumes "ledger_Run up ctx C w = Some (r, w')" and "\<And>e. snd (ctx e) = e"
    and "consumer_honest acked content A C" and "house_inv (fst w)"
  shows "\<exists>rej. run_rejects up C w = Some rej \<and> house_inv (fst w') \<and>
    (\<forall>i \<in> acked (snd w') - acked (snd w).
       settled up A (fst w') (content i) \<or> content i \<in> set rej)"
proof -
  obtain rej where rej: "run_rejects up C w = Some rej" and "reaches up {C} w rej w'"
    using ledger_Run_reaches [OF assms(1) _ assms(2), of "{C}"] by auto
  from reaches_accounted [OF this(2) _ assms(4), of acked content A] assms(3) rej show ?thesis
    by (auto simp: accounted_def)
qed

lemma run_commits_before_ack_witness:
  "\<exists>rej. run_rejects sample_uuid_Parse closing_consumer (one_auction_db, []) = Some rej \<and>
     (settled sample_uuid_Parse ''A'' house_after_first sample_entry \<or> sample_entry \<in> set rej)"
  using run_commits_before_ack [OF run_sample, of set "\<lambda>_. sample_entry" "''A''"] closing_honest
  by auto

text \<open>
  The count \<open>processEntries\<close> returns is the number of entries it finished: the entries before
  that position were processed one after another, and with an error it is the next entry whose
  processing returned that error; nothing after it was touched.
\<close>

theorem batch_counts:
  assumes "processEntries up C n ens w = (Returns (m, err), w')"
  shows "\<exists>k w1. k \<le> length ens \<and> m = n + k \<and>
    processEntries up C n (take k ens) w = (Returns (m, None), w1) \<and>
    (case err of
       None \<Rightarrow> k = length ens \<and> w1 = w'
     | Some e \<Rightarrow> k < length ens \<and> process_entry up C (ens ! k) w1 = (Returns (Some e), w'))"
  using assms by (rule processEntries_run)

lemma batch_counts_witness:
  "\<exists>k w1. k \<le> 1 \<and> (1 :: nat) = 0 + k \<and>
    processEntries sample_uuid_Parse sample_consumer 0 (take k [sample_entry]) (one_auction_db, []) =
      (Returns (1, None), w1) \<and> k = 1 \<and> w1 = (house_after_first, [''5-0''])"
proof -
  have "processEntries sample_uuid_Parse sample_consumer 0 [sample_entry] (one_auction_db, []) =
      (Returns (1, None), house_after_first, [''5-0''])"
    using process_sample by simp
  from batch_counts [OF this] show ?thesis by simp
qed

text \<open>
  C17. Crash recovery is exactly once: the process ends after the COMMIT and before the XACK; the
  bid is recorded and the entry not acknowledged. When a restarted consumer is given the entry
  again, it recognises the bid, changes nothing in the database, and acknowledges the entry.
\<close>

theorem crash_then_redelivery:
  assumes "quiet_ledger d C" and "entry_bid up (lc_AuctionID (lc_config C)) en = Inr (bid, t)"
    and "lc_AfterPersistBeforeAck (lc_config C) = Some (\<lambda>en res w. (Process_ends, w))"
    and "AppendBidIdempotentWithAntiSnipe d bid t db = (db', Inr res)"
    and "quiet_ledger d C'" and "lc_AuctionID (lc_config C') = lc_AuctionID (lc_config C)"
    and "lc_AfterPersistBeforeAck (lc_config C') = None" and "lc_BeforeAck (lc_config C') = None"
    and "lc_streams C' = Some c" and "lc_AuctionID (lc_config C) \<noteq> []" and "lc_Group (lc_config C') \<noteq> []"
    and "xack c (StreamKey (lc_AuctionID (lc_config C))) (lc_Group (lc_config C')) [se_ID en] e =
      (None, e')"
  shows "process_entry up C en (db, e) = (Process_ends, db', e) \<and>
    recorded db' (bid_key bid) = Some (SequenceNumber res) \<and>
    process_entry up C' en (db', e) = (Returns None, db', e')"
  using assms by (rule crash_run)

lemma crash_then_redelivery_witness:
  "process_entry sample_uuid_Parse crashing_consumer sample_entry (one_auction_db, []) =
     (Process_ends, house_after_first, []) \<and>
   process_entry sample_uuid_Parse sample_consumer sample_entry (house_after_first, []) =
     (Returns None, house_after_first, [''5-0''])"
proof -
  have "quiet_ledger good_driver crashing_consumer"
    using quiet_sample by (simp add: quiet_ledger_def crashing_consumer_def)
  moreover have "lc_AuctionID (lc_config crashing_consumer) = ''A''"
    "lc_AfterPersistBeforeAck (lc_config crashing_consumer) = Some (\<lambda>en res w. (Process_ends, w))"
    by (simp_all add: crashing_consumer_def)
  ultimately show ?thesis
    using crash_then_redelivery [of good_driver crashing_consumer sample_uuid_Parse sample_entry
        first_bid 5000000 one_auction_db house_after_first first_answer sample_consumer
        one_message_client "[]" "[''5-0'']"] quiet_sample anti_snipe_first
    by (simp add: entry_bid_sample)
qed



text \<open>
  C32. A recovery scan ends: when the cursors of XAUTOCLAIM go forward, as Redis documents,
  \<open>RecoverPending\<close> returns (or the process ends inside it), whatever the entries, the ledger and
  the hooks do.
\<close>

theorem recovery_scan_ends:
  assumes "lc_streams C = Some c" and "cursors_advance rank c"
  shows "\<exists>y. RecoverPending up C w = Some y"
proof -
  obtain r w1 where g: "ensureGroup C w = (r, w1)" by (cases "ensureGroup C w")
  have "\<exists>y. recover_loop up C ''0-0'' 0 w1 = Some y"
    using assms by (intro recover_loop_ends) auto
  with g show ?thesis
    by (cases r) (auto simp: RecoverPending_def recoverPending_def)
qed

lemma recovery_scan_ends_witness:
  "\<exists>y. RecoverPending sample_uuid_Parse sample_consumer (one_auction_db, []) = Some y"
  by (rule recovery_scan_ends [of _ one_message_client length])
    (simp_all add: cursors_advance_def one_message_client_def)

end
