(* ===== verification/Sql_Transactions.thy ===== *)
theory Sql_Transactions
  imports Ledger_Store Anti_Snipe
begin

text \<open>
  The two appending transactions of \<^verbatim>\<open>src/internal/store/postgres/ledger.go\<close> and
  \<^verbatim>\<open>anti_snipe.go\<close>, statement by statement: a value of type \<open>tx\<close> is the Go function stopped
  before its next call of the server, with what it does with the reply. A statement adds rows
  to the write set of its transaction and reads the committed database under those rows. The
  theory shows that a transaction whose statements run with nothing in between is the function
  of \<open>Ledger_Store\<close> or \<open>Anti_Snipe\<close>, that it is about one auction only, and how many
  statements it takes. \<open>Concurrent_Appends\<close> runs many of them interleaved.
\<close>

section \<open>Transactions\<close>

datatype 'r tx =
    Begin "unit result \<Rightarrow> 'r tx"
  | LockAuction uuid "(time \<times> int32) result \<Rightarrow> 'r tx"
  | SelectSequence pg_call uuid uuid "int64 result \<Rightarrow> 'r tx"
  | EnsureSequence uuid "unit result \<Rightarrow> 'r tx"
  | LockSequence uuid "int64 result \<Rightarrow> 'r tx"
  | InsertBid bid_row "int64 option result \<Rightarrow> 'r tx"
  | AdvanceSequence uuid int64 int64 "nat result \<Rightarrow> 'r tx"
  | ExtendAuction uuid time "(time \<times> int32) option result \<Rightarrow> 'r tx"
  | InsertOutbox string string uuid int64 json_object "nat result \<Rightarrow> 'r tx"
  | Commit string 'r
  | Stop go_error

text \<open>\<open>if err != nil { return ..., fmt.Errorf(msg, err) }\<close>, with the deferred ROLLBACK.\<close>

definition or_stop :: "string \<Rightarrow> ('a \<Rightarrow> 'r tx) \<Rightarrow> 'a result \<Rightarrow> 'r tx" where
  "or_stop msg k r = (case r of Inl err \<Rightarrow> Stop (ErrWrap msg err) | Inr x \<Rightarrow> k x)"

text \<open>What the two functions return.\<close>

type_synonym append_result = "AntiSnipeAppendResult + AppendBidResult"

section \<open>The row-lock append\<close>

definition row_lock_read_existing :: "BidToPersist \<Rightarrow> append_result tx" where
  "row_lock_read_existing bid =
     SelectSequence CallReadExisting (bp_AuctionID bid) (bp_IdempotencyKey bid)
       (or_stop ''read existing idempotent bid'' (\<lambda>existingSequence.
          Commit ''commit duplicate bid observation''
            (Inr \<lparr> SequenceNumber = existingSequence, Inserted = False \<rparr>)))"

definition row_lock_advance :: "BidToPersist \<Rightarrow> int64 \<Rightarrow> int64 \<Rightarrow> append_result tx" where
  "row_lock_advance bid lastSequence insertedSequence =
     AdvanceSequence (bp_AuctionID bid) (lastSequence + 1) lastSequence
       (or_stop ''advance auction sequence'' (\<lambda>rows.
          if rows \<noteq> 1 then Stop (ErrNew ''advance auction sequence: expected one row'')
          else Commit ''commit new bid''
            (Inr \<lparr> SequenceNumber = insertedSequence, Inserted = True \<rparr>)))"

definition row_lock_number :: "BidToPersist \<Rightarrow> append_result tx" where
  "row_lock_number bid =
     LockSequence (bp_AuctionID bid) (or_stop ''lock auction sequence row'' (\<lambda>lastSequence.
       InsertBid (bid_row_of bid (lastSequence + 1)) (or_stop ''insert idempotent bid'' (\<lambda>inserted.
         case inserted of
           Some insertedSequence \<Rightarrow> row_lock_advance bid lastSequence insertedSequence
         | None \<Rightarrow> row_lock_read_existing bid))))"

definition row_lock_body :: "BidToPersist \<Rightarrow> append_result tx" where
  "row_lock_body bid =
     EnsureSequence (bp_AuctionID bid)
       (or_stop ''ensure auction sequence row'' (\<lambda>_. row_lock_number bid))"

definition row_lock_tx :: "BidToPersist \<Rightarrow> append_result tx" where
  "row_lock_tx bid =
     Begin (or_stop ''begin idempotent ledger transaction'' (\<lambda>_. row_lock_body bid))"

section \<open>The anti-snipe append\<close>

definition sniped ::
  "int64 \<Rightarrow> bool \<Rightarrow> bool \<Rightarrow> time \<Rightarrow> int32 \<Rightarrow> append_result"
where
  "sniped n inserted extended close k =
     Inl \<lparr> SequenceNumber = n, Inserted = inserted, Extended = extended,
           EffectiveCloseTime = close, ExtensionCount = k \<rparr>"

definition extend_tx ::
  "pg_driver \<Rightarrow> BidToPersist \<Rightarrow> time \<Rightarrow> time \<Rightarrow> int32 \<Rightarrow> int64 \<Rightarrow> append_result tx"
where
  "extend_tx d bid submittedAt currentCloseTime extensionCount insertedSequence =
     ExtendAuction (bp_AuctionID bid) submittedAt
       (or_stop ''apply atomic anti-snipe extension'' (\<lambda>ext.
          let (newCloseTime, newExtensionCount, extended) =
            (case ext of
               Some (c, n) \<Rightarrow> (c, n, True)
             | None \<Rightarrow> (currentCloseTime, extensionCount, False))
          in
          InsertOutbox ''BidAccepted'' ''auction'' (bp_AuctionID bid) insertedSequence
            (bid_accepted_payload d bid insertedSequence submittedAt newCloseTime extended
               newExtensionCount)
            (or_stop ''append transactional outbox event'' (\<lambda>rows.
               if rows \<noteq> 1 then
                 Stop (ErrWrap ''append transactional outbox event''
                   (ErrNew ''insert BidAccepted outbox event: expected one row''))
               else Commit ''commit anti-snipe transaction''
                 (sniped insertedSequence True extended newCloseTime newExtensionCount))
             \<circ> map_sum (ErrWrap ''insert BidAccepted outbox event'') (\<lambda>rows. rows))))"

definition anti_snipe_read_existing :: "BidToPersist \<Rightarrow> time \<Rightarrow> int32 \<Rightarrow> append_result tx" where
  "anti_snipe_read_existing bid currentCloseTime extensionCount =
     SelectSequence CallReadExisting (bp_AuctionID bid) (bp_IdempotencyKey bid)
       (or_stop ''read existing idempotent bid'' (\<lambda>existingSequence.
          Commit ''commit duplicate bid observation''
            (sniped existingSequence False False currentCloseTime extensionCount)))"

definition anti_snipe_advance ::
  "pg_driver \<Rightarrow> BidToPersist \<Rightarrow> time \<Rightarrow> time \<Rightarrow> int32 \<Rightarrow> int64 \<Rightarrow> int64 \<Rightarrow> append_result tx"
where
  "anti_snipe_advance d bid submittedAt currentCloseTime extensionCount lastSequence
       insertedSequence =
     AdvanceSequence (bp_AuctionID bid) (lastSequence + 1) lastSequence
       (or_stop ''advance auction sequence'' (\<lambda>rows.
          if rows \<noteq> 1 then Stop (ErrNew ''advance auction sequence: expected one row'')
          else extend_tx d bid submittedAt currentCloseTime extensionCount insertedSequence))"

definition anti_snipe_number ::
  "pg_driver \<Rightarrow> BidToPersist \<Rightarrow> time \<Rightarrow> time \<Rightarrow> int32 \<Rightarrow> append_result tx"
where
  "anti_snipe_number d bid submittedAt currentCloseTime extensionCount =
     EnsureSequence (bp_AuctionID bid) (or_stop ''ensure auction sequence row'' (\<lambda>_.
       LockSequence (bp_AuctionID bid) (or_stop ''lock auction sequence row'' (\<lambda>lastSequence.
         InsertBid (bid_row_of bid (lastSequence + 1)) (or_stop ''insert anti-snipe bid''
           (\<lambda>inserted.
              case inserted of
                None \<Rightarrow> anti_snipe_read_existing bid currentCloseTime extensionCount
              | Some insertedSequence \<Rightarrow>
                  anti_snipe_advance d bid submittedAt currentCloseTime extensionCount
                    lastSequence insertedSequence))))))"

definition anti_snipe_body :: "pg_driver \<Rightarrow> BidToPersist \<Rightarrow> time \<Rightarrow> append_result tx" where
  "anti_snipe_body d bid submittedAt =
     LockAuction (bp_AuctionID bid) (or_stop ''lock auction for anti-snipe processing''
       (\<lambda>(currentCloseTime, extensionCount).
          SelectSequence CallCheckExisting (bp_AuctionID bid) (bp_IdempotencyKey bid) (\<lambda>r.
            case r of
              Inr existingSequence \<Rightarrow>
                Commit ''commit crash-recovery duplicate observation''
                  (sniped existingSequence False False currentCloseTime extensionCount)
            | Inl err \<Rightarrow>
                if \<not> errors_is err ErrNoRows then
                  Stop (ErrWrap ''check existing bid before crash recovery'' err)
                else if \<not> Before submittedAt currentCloseTime then Stop ErrBidAtOrAfterClose
                else anti_snipe_number d bid submittedAt currentCloseTime extensionCount)))"

definition anti_snipe_tx :: "pg_driver \<Rightarrow> BidToPersist \<Rightarrow> time \<Rightarrow> append_result tx" where
  "anti_snipe_tx d bid submittedAt =
     (if IsZero submittedAt then
        Stop (ErrNew ''authoritative bid submission time is required'')
      else
        Begin (or_stop ''begin anti-snipe transaction''
          (\<lambda>_. anti_snipe_body d bid submittedAt)))"

section \<open>Write sets\<close>

datatype row_write =
    WCounter uuid int64
  | WBid bid_row
  | WAuction uuid auction_row
  | WOutbox outbox_row

fun apply_write :: "row_write \<Rightarrow> database \<Rightarrow> database" where
  "apply_write (WCounter a n) db = db\<lparr>auction_sequences := (auction_sequences db)(a \<mapsto> n)\<rparr>"
| "apply_write (WBid r) db = db\<lparr>bids := bids db @ [r]\<rparr>"
| "apply_write (WAuction a r) db = db\<lparr>auctions := (auctions db)(a \<mapsto> r)\<rparr>"
| "apply_write (WOutbox q) db = db\<lparr>outbox := outbox db @ [q]\<rparr>"

text \<open>READ COMMITTED: a statement sees what is committed, and the rows of its own transaction.\<close>

definition view :: "row_write list \<Rightarrow> database \<Rightarrow> database" where
  "view ws db = fold apply_write ws db"

text \<open>The rows a successful statement writes.\<close>

definition ensure_writes :: "database \<Rightarrow> uuid \<Rightarrow> row_write list" where
  "ensure_writes v a = (if auction_sequences v a = None then [WCounter a 0] else [])"

definition extend_writes :: "database \<Rightarrow> uuid \<Rightarrow> row_write list" where
  "extend_writes v' a = (case auctions v' a of None \<Rightarrow> [] | Some r' \<Rightarrow> [WAuction a r'])"

text \<open>One statement on a view: the rows it writes and the rest of the transaction.\<close>

fun tx_step :: "pg_driver \<Rightarrow> database \<Rightarrow> 'r tx \<Rightarrow> row_write list \<times> 'r tx" where
  "tx_step d v (Begin k) = ([], k (on_server d CallBegin (Inr ())))"
| "tx_step d v (LockAuction a k) = ([], k (on_server d CallLockAuction (sql_lock_auction d v a)))"
| "tx_step d v (SelectSequence c a i k) = ([], k (on_server d c (sql_select_sequence v a i)))"
| "tx_step d v (EnsureSequence a k) =
     (case on_server d CallEnsureSequence (sql_ensure_sequence v a) of
        Inl err \<Rightarrow> ([], k (Inl err))
      | Inr _ \<Rightarrow> (ensure_writes v a, k (Inr ())))"
| "tx_step d v (LockSequence a k) = ([], k (on_server d CallLockSequence (sql_lock_sequence v a)))"
| "tx_step d v (InsertBid r k) =
     (case on_server d CallInsertBid (sql_insert_bid_on_conflict v r) of
        Inl err \<Rightarrow> ([], k (Inl err))
      | Inr (_, None) \<Rightarrow> ([], k (Inr None))
      | Inr (_, Some n) \<Rightarrow> ([WBid r], k (Inr (Some n))))"
| "tx_step d v (AdvanceSequence a new old k) =
     (case on_server d CallAdvanceSequence (sql_advance_sequence v a new old) of
        Inl err \<Rightarrow> ([], k (Inl err))
      | Inr (_, rows) \<Rightarrow> (if rows = 0 then [] else [WCounter a new], k (Inr rows)))"
| "tx_step d v (ExtendAuction a t k) =
     (case on_server d CallExtend (sql_extend_auction d v a t) of
        Inl err \<Rightarrow> ([], k (Inl err))
      | Inr (_, None) \<Rightarrow> ([], k (Inr None))
      | Inr (v', Some x) \<Rightarrow> (extend_writes v' a, k (Inr (Some x))))"
| "tx_step d v (InsertOutbox ty agg a n payload k) =
     (case on_server d CallInsertOutbox (sql_insert_outbox d v ty agg a n payload) of
        Inl err \<Rightarrow> ([], k (Inl err))
      | Inr (v', rows) \<Rightarrow> ([WOutbox (last (outbox v'))], k (Inr rows)))"
| "tx_step d v (Commit msg r) = ([], Commit msg r)"
| "tx_step d v (Stop err) = ([], Stop err)"

fun ended :: "'r tx \<Rightarrow> bool" where
  "ended (Commit msg r) = True"
| "ended (Stop err) = True"
| "ended _ = False"

section \<open>A transaction alone\<close>

text \<open>
  The statements of a transaction with nothing in between, from the rows \<open>ws\<close> it has written:
  the rows it has written in the end, and its error or its COMMIT.
\<close>

primrec complete ::
  "'r tx \<Rightarrow> pg_driver \<Rightarrow> row_write list \<Rightarrow> database \<Rightarrow> row_write list \<times> (go_error + string \<times> 'r)"
where
  "complete (Begin k) = (\<lambda>d ws db. complete (k (on_server d CallBegin (Inr ()))) d ws db)"
| "complete (LockAuction a k) = (\<lambda>d ws db.
     complete (k (on_server d CallLockAuction (sql_lock_auction d (view ws db) a))) d ws db)"
| "complete (SelectSequence c a i k) = (\<lambda>d ws db.
     complete (k (on_server d c (sql_select_sequence (view ws db) a i))) d ws db)"
| "complete (EnsureSequence a k) = (\<lambda>d ws db.
     case on_server d CallEnsureSequence (sql_ensure_sequence (view ws db) a) of
       Inl err \<Rightarrow> complete (k (Inl err)) d ws db
     | Inr _ \<Rightarrow> complete (k (Inr ())) d (ws @ ensure_writes (view ws db) a) db)"
| "complete (LockSequence a k) = (\<lambda>d ws db.
     complete (k (on_server d CallLockSequence (sql_lock_sequence (view ws db) a))) d ws db)"
| "complete (InsertBid r k) = (\<lambda>d ws db.
     case on_server d CallInsertBid (sql_insert_bid_on_conflict (view ws db) r) of
       Inl err \<Rightarrow> complete (k (Inl err)) d ws db
     | Inr (_, None) \<Rightarrow> complete (k (Inr None)) d ws db
     | Inr (_, Some n) \<Rightarrow> complete (k (Inr (Some n))) d (ws @ [WBid r]) db)"
| "complete (AdvanceSequence a new old k) = (\<lambda>d ws db.
     case on_server d CallAdvanceSequence (sql_advance_sequence (view ws db) a new old) of
       Inl err \<Rightarrow> complete (k (Inl err)) d ws db
     | Inr (_, rows) \<Rightarrow>
         complete (k (Inr rows)) d (ws @ (if rows = 0 then [] else [WCounter a new])) db)"
| "complete (ExtendAuction a t k) = (\<lambda>d ws db.
     case on_server d CallExtend (sql_extend_auction d (view ws db) a t) of
       Inl err \<Rightarrow> complete (k (Inl err)) d ws db
     | Inr (_, None) \<Rightarrow> complete (k (Inr None)) d ws db
     | Inr (v', Some x) \<Rightarrow> complete (k (Inr (Some x))) d (ws @ extend_writes v' a) db)"
| "complete (InsertOutbox ty agg a n payload k) = (\<lambda>d ws db.
     case on_server d CallInsertOutbox (sql_insert_outbox d (view ws db) ty agg a n payload) of
       Inl err \<Rightarrow> complete (k (Inl err)) d ws db
     | Inr (v', rows) \<Rightarrow> complete (k (Inr rows)) d (ws @ [WOutbox (last (outbox v'))]) db)"
| "complete (Commit msg r) = (\<lambda>d ws db. (ws, Inr (msg, r)))"
| "complete (Stop err) = (\<lambda>d ws db. (ws, Inl err))"

text \<open>The end of a call: the COMMIT, or the ROLLBACK of an error.\<close>

definition finish ::
  "pg_driver \<Rightarrow> database \<Rightarrow> row_write list \<times> (go_error + string \<times> 'r) \<Rightarrow> database \<times> 'r result"
where
  "finish d db out =
     (case snd out of
        Inl err \<Rightarrow> (db, Inl err)
      | Inr (msg, r) \<Rightarrow> commit_tx d db (view (fst out) db) msg r)"

lemma complete_step:
  "complete p d ws db =
     (let (new, q) = tx_step d (view ws db) p in complete q d (ws @ new) db)"
  by (cases p) (auto split: sum.split prod.split option.split)

section \<open>Statements and their write sets\<close>

lemma view_Nil [simp]: "view [] db = db"
  by (simp add: view_def)

lemma view_append [simp]: "view (ws @ us) db = view us (view ws db)"
  by (simp add: view_def)

lemma view_single [simp]: "view [w] db = apply_write w db"
  by (simp add: view_def)

lemma ensure_writes_view: "sql_ensure_sequence v a = Inr v' \<Longrightarrow> view (ensure_writes v a) v = v'"
  by (auto simp: ensure_writes_def sql_ensure_sequence_def split: option.splits if_splits)

lemma insert_writes_view:
  "sql_insert_bid_on_conflict v r = Inr (v', Some n) \<Longrightarrow> view [WBid r] v = v'"
  "sql_insert_bid_on_conflict v r = Inr (v', None) \<Longrightarrow> v' = v"
  by (auto simp: sql_insert_conflict_Inr split: if_splits)

lemma advance_writes_view:
  "sql_advance_sequence v a new old = Inr (v', 0) \<Longrightarrow> v' = v"
  "sql_advance_sequence v a new old = Inr (v', rows) \<Longrightarrow> rows \<noteq> 0 \<Longrightarrow> view [WCounter a new] v = v'"
  by (auto simp: sql_advance_sequence_def split: if_splits)

lemma extend_writes_view:
  "sql_extend_auction d v a t = Inr (v', Some x) \<Longrightarrow> view (extend_writes v' a) v = v'"
  "sql_extend_auction d v a t = Inr (v', None) \<Longrightarrow> v' = v"
  by (auto simp: sql_extend_auction_def extend_writes_def split: option.splits sum.splits)

lemma outbox_writes_view:
  "sql_insert_outbox d v ty agg a n payload = Inr (v', rows) \<Longrightarrow>
     view [WOutbox (last (outbox v'))] v = v'"
  by (auto simp: sql_insert_outbox_def split: if_splits)

text \<open>The rows already written can be taken as part of the database.\<close>

lemma rebase_more:
  assumes "\<And>ws db. complete p d ws db = map_prod ((@) ws) (\<lambda>x. x) (complete p d [] (view ws db))"
  shows "complete p d (ws @ us) db = map_prod ((@) ws) (\<lambda>x. x) (complete p d us (view ws db))"
  using assms [of "ws @ us" db] assms [of us "view ws db"]
  by (cases "complete p d [] (view us (view ws db))") simp

lemma complete_rebase:
  "complete p d ws db = map_prod ((@) ws) (\<lambda>x. x) (complete p d [] (view ws db))"
proof (induction p arbitrary: ws db)
  case (EnsureSequence a k)
  note more = rebase_more [of "k x" d for x, OF EnsureSequence, OF rangeI]
  from more [of _ ws "[]"] more show ?case by (simp split: sum.split)
next
  case (InsertBid r k)
  note more = rebase_more [of "k x" d for x, OF InsertBid, OF rangeI]
  from more [of _ ws "[]"] more show ?case by (simp split: sum.split prod.split option.split)
next
  case (AdvanceSequence a new old k)
  note more = rebase_more [of "k x" d for x, OF AdvanceSequence, OF rangeI]
  from more [of _ ws "[]"] more show ?case by (simp split: sum.split prod.split)
next
  case (ExtendAuction a t k)
  note more = rebase_more [of "k x" d for x, OF ExtendAuction, OF rangeI]
  from more [of _ ws "[]"] more show ?case by (simp split: sum.split prod.split option.split)
next
  case (InsertOutbox ty agg a n payload k)
  note more = rebase_more [of "k x" d for x, OF InsertOutbox, OF rangeI]
  from more [of _ ws "[]"] more show ?case by (simp split: sum.split prod.split)
next
  case (Begin k)
  from Begin [OF rangeI, of _ ws db] show ?case by (simp only: complete.simps view_Nil)
next
  case (LockAuction a k)
  from LockAuction [OF rangeI, of _ ws db] show ?case by (simp only: complete.simps view_Nil)
next
  case (SelectSequence c a i k)
  from SelectSequence [OF rangeI, of _ ws db] show ?case by (simp only: complete.simps view_Nil)
next
  case (LockSequence a k)
  from LockSequence [OF rangeI, of _ ws db] show ?case by (simp only: complete.simps view_Nil)
qed simp_all

section \<open>A transaction alone is the function of the source\<close>

text \<open>The working state to COMMIT, its message and the value, or the error.\<close>

definition run_alone :: "'r tx \<Rightarrow> pg_driver \<Rightarrow> database \<Rightarrow> (database \<times> string \<times> 'r) result" where
  "run_alone p d v =
     (case complete p d [] v of
        (ws, Inl err) \<Rightarrow> Inl err
      | (ws, Inr (msg, r)) \<Rightarrow> Inr (view ws v, msg, r))"

lemma run_alone_rebase:
  "(case complete p d ws v of
      (ws, Inl err) \<Rightarrow> Inl err
    | (ws, Inr (msg, r)) \<Rightarrow> Inr (view ws v, msg, r)) = run_alone p d (view ws v)"
  by (subst complete_rebase) (simp add: run_alone_def split: prod.split sum.split)

lemma run_alone_reads [simp]:
  "run_alone (Begin kb) d v = run_alone (kb (on_server d CallBegin (Inr ()))) d v"
  "run_alone (LockAuction a ka) d v =
     run_alone (ka (on_server d CallLockAuction (sql_lock_auction d v a))) d v"
  "run_alone (SelectSequence c a i kc) d v =
     run_alone (kc (on_server d c (sql_select_sequence v a i))) d v"
  "run_alone (LockSequence a kc) d v =
     run_alone (kc (on_server d CallLockSequence (sql_lock_sequence v a))) d v"
  "run_alone (Commit msg r) d v = Inr (v, msg, r)"
  "run_alone (Stop err) d v = Inl err"
  by (simp_all add: run_alone_def)

lemma run_alone_EnsureSequence [simp]:
  "run_alone (EnsureSequence a k) d v =
     (case on_server d CallEnsureSequence (sql_ensure_sequence v a) of
        Inl err \<Rightarrow> run_alone (k (Inl err)) d v | Inr v' \<Rightarrow> run_alone (k (Inr ())) d v')"
  unfolding run_alone_def [of "EnsureSequence a k"]
  by (auto simp: run_alone_rebase ensure_writes_view split: sum.split)

lemma run_alone_InsertBid [simp]:
  "run_alone (InsertBid r k) d v =
     (case on_server d CallInsertBid (sql_insert_bid_on_conflict v r) of
        Inl err \<Rightarrow> run_alone (k (Inl err)) d v | Inr (v', x) \<Rightarrow> run_alone (k (Inr x)) d v')"
  unfolding run_alone_def [of "InsertBid r k"]
  by (auto simp: run_alone_rebase insert_writes_view(1) dest: insert_writes_view(2) simp del: view_single split: sum.split option.split)

lemma run_alone_AdvanceSequence [simp]:
  "run_alone (AdvanceSequence a new old k) d v =
     (case on_server d CallAdvanceSequence (sql_advance_sequence v a new old) of
        Inl err \<Rightarrow> run_alone (k (Inl err)) d v | Inr (v', x) \<Rightarrow> run_alone (k (Inr x)) d v')"
  unfolding run_alone_def [of "AdvanceSequence a new old k"]
  by (auto simp: run_alone_rebase simp del: view_single split: sum.split
      dest: advance_writes_view)

lemma run_alone_ExtendAuction [simp]:
  "run_alone (ExtendAuction a t k) d v =
     (case on_server d CallExtend (sql_extend_auction d v a t) of
        Inl err \<Rightarrow> run_alone (k (Inl err)) d v | Inr (v', x) \<Rightarrow> run_alone (k (Inr x)) d v')"
  unfolding run_alone_def [of "ExtendAuction a t k"]
  by (auto simp: run_alone_rebase extend_writes_view(1) dest: extend_writes_view(2) simp del: view_single split: sum.split option.split)

lemma run_alone_InsertOutbox [simp]:
  "run_alone (InsertOutbox ty agg a n payload k) d v =
     (case on_server d CallInsertOutbox (sql_insert_outbox d v ty agg a n payload) of
        Inl err \<Rightarrow> run_alone (k (Inl err)) d v | Inr (v', x) \<Rightarrow> run_alone (k (Inr x)) d v')"
  unfolding run_alone_def [of "InsertOutbox ty agg a n payload k"]
  by (auto simp: run_alone_rebase outbox_writes_view simp del: view_single split: sum.split option.split)

lemma finish_complete:
  "finish d db (complete p d [] db) =
     (case run_alone p d db of
        Inl err \<Rightarrow> (db, Inl err) | Inr (work, msg, r) \<Rightarrow> commit_tx d db work msg r)"
  by (simp add: finish_def run_alone_def split: prod.split sum.split)

lemma run_alone_or_stop [simp]:
  "run_alone (or_stop msg k (Inl err)) d v = Inl (ErrWrap msg err)"
  "run_alone (or_stop msg k (Inr x)) d v = run_alone (k x) d v"
  by (simp_all add: or_stop_def)

lemma run_tx_ending:
  "run_tx d db msg body =
     (case on_server d CallBegin (Inr ()) of
        Inl err \<Rightarrow> (db, Inl (ErrWrap msg err))
      | Inr _ \<Rightarrow>
          (case body of Inl err \<Rightarrow> (db, Inl err) | Inr (work, m, r) \<Rightarrow> commit_tx d db work m r))"
  by (simp add: run_tx_def on_server_def split: option.split)

lemma commit_tx_map: "commit_tx d db work msg (f r) = map_prod (\<lambda>x. x) (map_sum (\<lambda>e. e) f) (commit_tx d db work msg r)"
  by (simp add: commit_tx_def split: option.split)

lemmas row_lock_parts = row_lock_tx_def row_lock_body_def row_lock_number_def
  row_lock_advance_def row_lock_read_existing_def

lemmas anti_snipe_parts = anti_snipe_tx_def anti_snipe_body_def anti_snipe_number_def
  anti_snipe_advance_def anti_snipe_read_existing_def extend_tx_def sniped_def

lemma row_lock_tx_run:
  "finish d db (complete (row_lock_tx bid) d [] db) =
     map_prod (\<lambda>x. x) (map_sum (\<lambda>e. e) Inr) (AppendBidIdempotentRowLock d bid db)"
  unfolding AppendBidIdempotentRowLock_def run_tx_ending finish_complete row_lock_parts
  by (auto simp: attempt_def Let_def commit_tx_map [where f = Inr] split: sum.split option.split)

lemma append_new_bid_run:
  "run_alone (anti_snipe_number d bid t c k) d db =
     map_sum (\<lambda>e. e) (map_prod (\<lambda>x. x) (map_prod (\<lambda>x. x) Inl)) (append_new_bid d bid t c k db)"
  unfolding append_new_bid_def anti_snipe_parts
  by (auto simp: attempt_def Let_def extend_and_publish_def insertBidAcceptedOutbox_def
      split: sum.split option.split)

lemma anti_snipe_tx_run:
  "finish d db (complete (anti_snipe_tx d bid t) d [] db) =
     map_prod (\<lambda>x. x) (map_sum (\<lambda>e. e) Inl) (AppendBidIdempotentWithAntiSnipe d bid t db)"
  unfolding AppendBidIdempotentWithAntiSnipe_def run_tx_ending finish_complete
    anti_snipe_tx_def anti_snipe_body_def
  by (auto simp: append_new_bid_run attempt_def sniped_def commit_tx_map [where f = Inl]
      split: sum.split option.split)

section \<open>One auction, a bounded number of statements\<close>

text \<open>Every statement the transaction can come to is about the auction \<open>a\<close>.\<close>

primrec about :: "'r tx \<Rightarrow> uuid \<Rightarrow> bool" where
  "about (Begin k) a = (\<forall>r. about (k r) a)"
| "about (LockAuction b k) a = (b = a \<and> (\<forall>r. about (k r) a))"
| "about (SelectSequence c b i k) a = (b = a \<and> (\<forall>r. about (k r) a))"
| "about (EnsureSequence b k) a = (b = a \<and> (\<forall>r. about (k r) a))"
| "about (LockSequence b k) a = (b = a \<and> (\<forall>r. about (k r) a))"
| "about (InsertBid row k) a = (row_auction_id row = a \<and> (\<forall>r. about (k r) a))"
| "about (AdvanceSequence b new old k) a = (b = a \<and> (\<forall>r. about (k r) a))"
| "about (ExtendAuction b t k) a = (b = a \<and> (\<forall>r. about (k r) a))"
| "about (InsertOutbox ty agg b n payload k) a = (b = a \<and> (\<forall>r. about (k r) a))"
| "about (Commit msg x) a = True"
| "about (Stop err) a = True"

text \<open>It comes to COMMIT or to an error after at most \<open>n\<close> statements, whatever the replies.\<close>

primrec within :: "'r tx \<Rightarrow> nat \<Rightarrow> bool" where
  "within (Begin k) n = (0 < n \<and> (\<forall>r. within (k r) (n - 1)))"
| "within (LockAuction b k) n = (0 < n \<and> (\<forall>r. within (k r) (n - 1)))"
| "within (SelectSequence c b i k) n = (0 < n \<and> (\<forall>r. within (k r) (n - 1)))"
| "within (EnsureSequence b k) n = (0 < n \<and> (\<forall>r. within (k r) (n - 1)))"
| "within (LockSequence b k) n = (0 < n \<and> (\<forall>r. within (k r) (n - 1)))"
| "within (InsertBid row k) n = (0 < n \<and> (\<forall>r. within (k r) (n - 1)))"
| "within (AdvanceSequence b new old k) n = (0 < n \<and> (\<forall>r. within (k r) (n - 1)))"
| "within (ExtendAuction b t k) n = (0 < n \<and> (\<forall>r. within (k r) (n - 1)))"
| "within (InsertOutbox ty agg b m payload k) n = (0 < n \<and> (\<forall>r. within (k r) (n - 1)))"
| "within (Commit msg x) n = True"
| "within (Stop err) n = True"

lemma about_or_stop: "(\<And>x. about (k x) a) \<Longrightarrow> about (or_stop msg k r) a"
  by (simp add: or_stop_def split: sum.split)

lemma within_or_stop: "(\<And>x. within (k x) n) \<Longrightarrow> within (or_stop msg k r) n"
  by (simp add: or_stop_def split: sum.split)

lemma about_row_lock_tx: "about (row_lock_tx bid) (bp_AuctionID bid)"
  unfolding row_lock_parts
  by (auto intro!: about_or_stop simp: bid_row_of_def split: option.split)

lemma about_anti_snipe_tx: "about (anti_snipe_tx d bid t) (bp_AuctionID bid)"
  unfolding anti_snipe_parts
  by (auto intro!: about_or_stop simp: bid_row_of_def Let_def split: option.split prod.split sum.split)

lemma within_row_lock_tx: "within (row_lock_tx bid) 5"
  unfolding row_lock_parts
  by (auto intro!: within_or_stop split: option.split)

lemma within_anti_snipe_tx: "within (anti_snipe_tx d bid t) 9"
  unfolding anti_snipe_parts
  by (auto intro!: within_or_stop simp: Let_def split: option.split prod.split sum.split)

lemma about_tx_step: "about p a \<Longrightarrow> about (snd (tx_step d v p)) a"
  by (cases p) (auto split: sum.split option.split prod.split)

lemma within_tx_step: "within p (Suc n) \<Longrightarrow> within (snd (tx_step d v p)) n"
  by (cases p) (auto split: sum.split option.split prod.split)

lemma ended_if_within_0: "within p 0 \<Longrightarrow> ended p"
  by (cases p) simp_all

end
