(* ===== verification/Outbox_Store.thy ===== *)
theory Outbox_Store
  imports Auction_House
begin

text \<open>
  \<^verbatim>\<open>src/internal/store/postgres/outbox.go\<close>: publishing the oldest unpublished event inside a
  transaction that holds its row. The publish function and the test hook are the caller's:
  arguments over an environment \<open>'e\<close>. The rows other transactions hold, which
  \<^verbatim>\<open>SKIP LOCKED\<close> passes over, are the argument \<open>locked\<close>.
\<close>

section \<open>Data\<close>

record OutboxEvent =
  oe_ID :: uuid
  oe_EventType :: string
  oe_AggregateType :: string
  oe_AggregateID :: uuid
  oe_AggregateSequence :: int64
  oe_Payload :: bytes
  oe_CreatedAt :: time
  oe_PublishAttempts :: int32

text \<open>\<^verbatim>\<open>ORDER BY created_at, id\<close>: a UUID is ordered by its bytes, as a 128-bit number is.\<close>

datatype event_key = EventKey (key_time: int) (key_id: uuid)

instantiation event_key :: linorder
begin

definition less_eq_event_key :: "event_key \<Rightarrow> event_key \<Rightarrow> bool" where
  "x \<le> y \<longleftrightarrow> key_time x < key_time y \<or> key_time x = key_time y \<and> key_id x \<le> key_id y"

definition less_event_key :: "event_key \<Rightarrow> event_key \<Rightarrow> bool" where
  "x < y \<longleftrightarrow> key_time x < key_time y \<or> key_time x = key_time y \<and> key_id x < key_id y"

instance
proof
  fix x y z :: event_key
  show "x < y \<longleftrightarrow> x \<le> y \<and> \<not> y \<le> x"
    by (auto simp: less_eq_event_key_def less_event_key_def)
  show "x \<le> x" by (simp add: less_eq_event_key_def)
  show "x \<le> y \<Longrightarrow> y \<le> z \<Longrightarrow> x \<le> z" by (auto simp: less_eq_event_key_def)
  show "x \<le> y \<Longrightarrow> y \<le> x \<Longrightarrow> x = y"
    by (cases x; cases y) (auto simp: less_eq_event_key_def)
  show "x \<le> y \<or> y \<le> x" by (auto simp: less_eq_event_key_def)
qed

end

definition order_key :: "outbox_row \<Rightarrow> event_key" where
  "order_key q = EventKey (ob_created_at q) (ob_id q)"

section \<open>Statements\<close>

definition unpublished :: "database \<Rightarrow> outbox_row list" where
  "unpublished db = filter (\<lambda>q. ob_published_at q = None) (outbox db)"

text \<open>The row \<^verbatim>\<open>SELECT ... FOR UPDATE SKIP LOCKED LIMIT 1\<close> returns.\<close>

definition next_unpublished :: "(uuid \<Rightarrow> bool) \<Rightarrow> database \<Rightarrow> outbox_row option" where
  "next_unpublished locked db =
     (case filter (\<lambda>q. \<not> locked (ob_id q)) (unpublished db) of
        [] \<Rightarrow> None
      | q # qs \<Rightarrow> Some (arg_min_list order_key (q # qs)))"

definition event_of_row :: "pg_driver \<Rightarrow> outbox_row \<Rightarrow> OutboxEvent option" where
  "event_of_row d q =
     (case scan_time d (Ts (ob_created_at q)) of
        None \<Rightarrow> None
      | Some createdAt \<Rightarrow>
          Some \<lparr> oe_ID = ob_id q, oe_EventType = ob_event_type q,
            oe_AggregateType = ob_aggregate_type q, oe_AggregateID = ob_aggregate_id q,
            oe_AggregateSequence = ob_aggregate_sequence q,
            oe_Payload = jsonb_text d (ob_payload q), oe_CreatedAt = createdAt,
            oe_PublishAttempts = ob_publish_attempts q \<rparr>)"

definition sql_select_outbox ::
  "pg_driver \<Rightarrow> (uuid \<Rightarrow> bool) \<Rightarrow> database \<Rightarrow> OutboxEvent result"
where
  "sql_select_outbox d locked db =
     (case next_unpublished locked db of
        None \<Rightarrow> Inl ErrNoRows
      | Some q \<Rightarrow>
          (case event_of_row d q of
             None \<Rightarrow> Inl (ErrDriver ''cannot scan timestamptz'')
           | Some event \<Rightarrow> Inr event))"

text \<open>
  \<^verbatim>\<open>UPDATE outbox SET published_at = clock_timestamp(), publish_attempts = publish_attempts + 1
  WHERE id = $1 AND published_at IS NULL\<close>, with the number of rows affected.
\<close>

definition to_mark :: "uuid \<Rightarrow> outbox_row \<Rightarrow> bool" where
  "to_mark i q \<longleftrightarrow> ob_id q = i \<and> ob_published_at q = None"

definition marked :: "pg_driver \<Rightarrow> uuid \<Rightarrow> outbox_row \<Rightarrow> outbox_row" where
  "marked d i q =
     (if to_mark i q
      then q\<lparr>ob_published_at := Some (clock_timestamp d),
             ob_publish_attempts := ob_publish_attempts q + 1\<rparr>
      else q)"

definition sql_mark_published ::
  "pg_driver \<Rightarrow> database \<Rightarrow> uuid \<Rightarrow> (database \<times> nat) result"
where
  "sql_mark_published d db i =
     (if \<exists>q \<in> set (outbox db). to_mark i q \<and> sint (ob_publish_attempts q) = 2 ^ 31 - 1 then
        Inl (ErrDriver ''integer out of range'')
      else
        Inr (db\<lparr>outbox := map (marked d i) (outbox db)\<rparr>,
             length (filter (to_mark i) (outbox db))))"

section \<open>The operation\<close>

type_synonym 'e publish_fn = "OutboxEvent \<Rightarrow> 'e \<Rightarrow> go_error option \<times> 'e"

text \<open>
  From a locked event to the COMMIT. The error of the publish function or of the hook, or of a
  statement, rolls the transaction back; what the publish function did to the environment
  stays.
\<close>

definition mark_and_commit ::
  "pg_driver \<Rightarrow> database \<Rightarrow> uuid \<Rightarrow> database \<times> bool result"
where
  "mark_and_commit d db i =
     (case on_server d CallMarkPublished (sql_mark_published d db i) of
        Inl err \<Rightarrow> (db, Inl (ErrWrap ''mark outbox event published'' err))
      | Inr (work, rows) \<Rightarrow>
          if rows \<noteq> 1 then (db, Inl (ErrNew ''mark outbox event published: expected one row''))
          else commit_tx d db work ''commit outbox publication'' True)"

definition publish_and_mark ::
  "pg_driver \<Rightarrow> 'e publish_fn \<Rightarrow> 'e publish_fn option \<Rightarrow> OutboxEvent \<Rightarrow> database \<Rightarrow> 'e \<Rightarrow>
     bool result \<times> database \<times> 'e"
where
  "publish_and_mark d publish hook event db e =
     (case publish event e of
        (Some err, e1) \<Rightarrow> (Inl (ErrWrap ''publish outbox event'' err), db, e1)
      | (None, e1) \<Rightarrow>
          (case (case hook of None \<Rightarrow> (None, e1) | Some h \<Rightarrow> h event e1) of
             (Some err, e2) \<Rightarrow> (Inl (ErrWrap ''after publishing outbox event'' err), db, e2)
           | (None, e2) \<Rightarrow>
               (case mark_and_commit d db (oe_ID event) of (db', r) \<Rightarrow> (r, db', e2))))"

definition PublishNext ::
  "pg_driver \<Rightarrow> (uuid \<Rightarrow> bool) \<Rightarrow> 'e publish_fn option \<Rightarrow> 'e publish_fn option \<Rightarrow>
     database \<Rightarrow> 'e \<Rightarrow> bool result \<times> database \<times> 'e"
where
  "PublishNext d locked publish_opt afterPublishBeforeMark db e =
     (case publish_opt of
        None \<Rightarrow> (Inl (ErrNew ''outbox publish function is required''), db, e)
      | Some publish \<Rightarrow>
          (case fault d CallBegin of
             Some err \<Rightarrow>
               (Inl (ErrWrap ''begin outbox relay transaction'' (ErrDriver err)), db, e)
           | None \<Rightarrow>
               (case on_server d CallSelectOutbox (sql_select_outbox d locked db) of
                  Inr event \<Rightarrow>
                    publish_and_mark d publish afterPublishBeforeMark event db e
                | Inl err \<Rightarrow>
                    if errors_is err ErrNoRows then (Inr False, db, e)
                    else (Inl (ErrWrap ''lock next unpublished outbox event'' err), db, e))))"

section \<open>Lemmas\<close>

definition mark_published :: "pg_driver \<Rightarrow> uuid \<Rightarrow> database \<Rightarrow> database" where
  "mark_published d i db = db\<lparr>outbox := map (marked d i) (outbox db)\<rparr>"

lemma next_unpublished_Some:
  assumes "next_unpublished locked db = Some q"
  shows "q \<in> set (unpublished db) \<and> \<not> locked (ob_id q)"
    and "q' \<in> set (unpublished db) \<Longrightarrow> \<not> locked (ob_id q') \<Longrightarrow> order_key q \<le> order_key q'"
proof -
  let ?qs = "filter (\<lambda>q. \<not> locked (ob_id q)) (unpublished db)"
  have ne: "?qs \<noteq> []" and q: "q = arg_min_list order_key ?qs"
    using assms by (auto simp: next_unpublished_def split: list.splits)
  have "q \<in> set ?qs" unfolding q using ne by (rule arg_min_list_in)
  then show "q \<in> set (unpublished db) \<and> \<not> locked (ob_id q)" by auto
  have "order_key q = Min (order_key ` set ?qs)"
    unfolding q using ne by (rule f_arg_min_list_f)
  then show "order_key q \<le> order_key q'"
    if "q' \<in> set (unpublished db)" and "\<not> locked (ob_id q')"
    using that by auto
qed

lemma next_unpublished_None:
  "next_unpublished locked db = None \<longleftrightarrow> list_all (\<lambda>q. locked (ob_id q)) (unpublished db)"
proof -
  have "next_unpublished locked db = None \<longleftrightarrow>
      filter (\<lambda>q. \<not> locked (ob_id q)) (unpublished db) = []"
    by (simp add: next_unpublished_def split: list.split)
  then show ?thesis by (simp add: filter_empty_conv list_all_iff)
qed

lemma sql_mark_Inr [sql]:
  "sql_mark_published d db i = Inr (work, rows) \<longleftrightarrow>
     (\<forall>q \<in> set (outbox db). to_mark i q \<longrightarrow> sint (ob_publish_attempts q) \<noteq> 2 ^ 31 - 1) \<and>
     work = mark_published d i db \<and> rows = length (filter (to_mark i) (outbox db))"
  by (auto simp: sql_mark_published_def mark_published_def)

lemma event_of_row_ID: "event_of_row d q = Some ev \<Longrightarrow> oe_ID ev = ob_id q"
  by (auto simp: event_of_row_def split: option.splits)

lemma sql_select_outbox_Inr [sql]:
  "sql_select_outbox d locked db = Inr ev \<longleftrightarrow>
     (\<exists>q. next_unpublished locked db = Some q \<and> event_of_row d q = Some ev)"
  by (auto simp: sql_select_outbox_def split: option.split)

lemma mark_and_commit_outcome:
  assumes "mark_and_commit d db i = (db', r)"
  shows "(db' = db \<and> (\<exists>err. r = Inl err)) \<or>
    (db' = mark_published d i db \<and> r = Inr True) \<or>
    (db' = mark_published d i db \<and> (\<exists>err. r = Inl err) \<and> fault d CallCommit \<noteq> None \<and>
      commit_applied d)"
  using assms
  by (auto simp: mark_and_commit_def commit_tx_def on_server_def sql
      split: sum.splits option.splits if_splits)

text \<open>Everything one call can do.\<close>

lemma PublishNext_outcome:
  assumes "PublishNext d locked (Some p) h db e = (r, db', e')"
  shows "(db' = db \<and> (\<exists>err. r = Inl err)) \<or> (r = Inr False \<and> db' = db \<and> e' = e) \<or>
    (\<exists>q ev e1. next_unpublished locked db = Some q \<and> event_of_row d q = Some ev \<and>
       p ev e = (None, e1) \<and> (h = None \<and> e' = e1 \<or> (\<exists>g. h = Some g \<and> g ev e1 = (None, e'))) \<and>
       db' = mark_published d (ob_id q) db \<and>
       (r = Inr True \<or> (\<exists>err. r = Inl err) \<and> fault d CallCommit \<noteq> None \<and> commit_applied d))"
proof (cases "fault d CallBegin")
  case (Some err)
  with assms show ?thesis by (auto simp: PublishNext_def)
next
  case None
  note begun = None
  show ?thesis
  proof (cases "on_server d CallSelectOutbox (sql_select_outbox d locked db)")
    case (Inl err)
    with begun assms show ?thesis by (auto simp: PublishNext_def split: if_splits)
  next
    case (Inr ev)
    then obtain q where q: "next_unpublished locked db = Some q" "event_of_row d q = Some ev"
      by (auto simp: sql)
    have run: "publish_and_mark d p h ev db e = (r, db', e')"
      using assms begun Inr by (simp add: PublishNext_def)
    obtain e1 pr where pe: "p ev e = (pr, e1)" by (cases "p ev e")
    from run q pe mark_and_commit_outcome [of d db "oe_ID ev"] event_of_row_ID [OF q(2)]
    show ?thesis
      by (fastforce simp: publish_and_mark_def split: option.splits prod.splits)
  qed
qed

section \<open>The invariant\<close>

lemma marked_id [simp]: "ob_id (marked d i q) = ob_id q"
  by (simp add: marked_def)

lemma event_for_marked:
  assumes "event_for q r"
  shows "event_for (marked d i q) r"
  using assms by (auto simp: event_for_def marked_def to_mark_def)

lemma ledger_inv_outbox: "ledger_inv (db\<lparr>outbox := q\<rparr>) = ledger_inv db"
  by (simp add: ledger_inv_def auction_inv_def)

lemma outbox_inv_mark [inv_intro]:
  assumes "outbox_inv db"
  shows "outbox_inv (mark_published d i db)"
proof -
  have "list_all2 event_for (map (marked d i) (outbox db)) (bids db)"
    using assms
    by (auto simp: outbox_inv_def list_all2_map1 intro: list_all2_mono event_for_marked)
  with assms show ?thesis
    by (simp add: outbox_inv_def mark_published_def comp_def)
qed

lemma house_inv_mark_published [inv_intro]: "house_inv db \<Longrightarrow> house_inv (mark_published d i db)"
  using outbox_inv_mark [of db d i]
  by (simp add: house_inv_def) (simp add: mark_published_def ledger_inv_outbox)

lemma PublishNext_house_inv:
  assumes "house_inv db" and "PublishNext d locked p h db e = (r, db', e')"
  shows "house_inv db'"
proof (cases p)
  case None
  with assms show ?thesis by (auto simp: PublishNext_def)
next
  case (Some f)
  with assms PublishNext_outcome [of d locked f h db e] show ?thesis
    by (auto intro: house_inv_mark_published)
qed

section \<open>Draining the outbox\<close>

lemma unpublished_mark:
  "unpublished (mark_published d i db) = filter (\<lambda>q. ob_id q \<noteq> i) (unpublished db)"
proof -
  have "filter (\<lambda>q. ob_published_at q = None) (map (marked d i) qs) =
      filter (\<lambda>q. ob_id q \<noteq> i) (filter (\<lambda>q. ob_published_at q = None) qs)" for qs
    by (induction qs) (auto simp: marked_def to_mark_def)
  then show ?thesis by (simp add: unpublished_def mark_published_def)
qed

lemma order_key_inj: "order_key q = order_key q' \<Longrightarrow> ob_id q = ob_id q'"
  by (simp add: order_key_def)

lemma filter_distinct_one:
  assumes "distinct (map f xs)" and "x \<in> set xs"
  shows "filter (\<lambda>y. f y = f x) xs = [x]"
  using assms by (induction xs) (auto simp: filter_empty_conv image_iff)

text \<open>The event taken is the first of the unpublished ones in the order of the keys.\<close>

lemma sort_key_take_min:
  assumes "q \<in> set qs" and "distinct (map ob_id qs)"
    and "\<And>q'. q' \<in> set qs \<Longrightarrow> order_key q \<le> order_key q'"
  shows "sort_key order_key qs = q # sort_key order_key (filter (\<lambda>q'. ob_id q' \<noteq> ob_id q) qs)"
proof (rule map_sorted_distinct_set_unique [of order_key])
  let ?rest = "filter (\<lambda>q'. ob_id q' \<noteq> ob_id q) qs"
  have ids: "distinct qs" "inj_on ob_id (set qs)" using assms(2) by (simp_all add: distinct_map)
  then have inj: "inj_on order_key (set qs)"
    using order_key_inj unfolding inj_on_def by blast
  have set: "set qs = insert q (set ?rest)"
    using assms(1) ids(2) by (auto dest: inj_onD)
  have "set (sort_key order_key qs) \<union> set (q # sort_key order_key ?rest) = set qs"
    using set by auto
  with inj show "inj_on order_key (set (sort_key order_key qs) \<union> set (q # sort_key order_key ?rest))"
    by simp
  show "sorted (map order_key (sort_key order_key qs))" by simp
  show "distinct (map order_key (sort_key order_key qs))"
    using inj ids(1) by (simp add: distinct_map)
  show "sorted (map order_key (q # sort_key order_key ?rest))"
    using assms(3) by auto
  have "order_key q \<notin> order_key ` set ?rest"
  proof
    assume "order_key q \<in> order_key ` set ?rest"
    then obtain q' where "q' \<in> set ?rest" and "order_key q = order_key q'" by auto
    then show False using order_key_inj [of q q'] by simp
  qed
  moreover have "inj_on order_key (set ?rest)"
    using inj by (rule inj_on_subset) auto
  ultimately show "distinct (map order_key (q # sort_key order_key ?rest))"
    using ids(1) by (simp add: distinct_map)
  show "set (sort_key order_key qs) = set (q # sort_key order_key ?rest)"
    using set by simp
qed

section \<open>A call that does not fail\<close>

lemma unpublished_attempts:
  assumes "outbox_inv db" and "q \<in> set (outbox db)"
  shows "ob_publish_attempts q = (if ob_published_at q = None then 0 else 1)"
proof -
  have "list_all2 event_for (outbox db) (bids db)" using assms(1) by (simp add: outbox_inv_def)
  moreover from assms(2) obtain i where "i < length (outbox db)" and "outbox db ! i = q"
    by (auto simp: in_set_conv_nth)
  ultimately obtain r where "event_for q r" using list_all2_nthD by metis
  then show ?thesis by (simp add: event_for_def)
qed

lemma event_of_row_some:
  "driver_times d \<Longrightarrow> \<exists>ev. event_of_row d q = Some ev \<and> oe_ID ev = ob_id q"
  by (simp add: event_of_row_def driver_times_def)

lemma mark_and_commit_clean:
  assumes "outbox_inv db" and "fault d = (\<lambda>_. None)" and "q \<in> set (unpublished db)"
  shows "mark_and_commit d db (ob_id q) = (mark_published d (ob_id q) db, Inr True)"
proof -
  have q: "q \<in> set (outbox db)" "ob_published_at q = None"
    using assms(3) by (auto simp: unpublished_def)
  have "distinct (map ob_id (unpublished db))"
    using assms(1) by (simp add: outbox_inv_def unpublished_def distinct_map_filter)
  then have "filter (\<lambda>q'. ob_id q' = ob_id q) (unpublished db) = [q]"
    using assms(3) by (rule filter_distinct_one)
  then have "length (filter (to_mark (ob_id q)) (outbox db)) = 1"
    by (simp add: unpublished_def to_mark_def [abs_def] conj_commute)
  moreover have "\<forall>q' \<in> set (outbox db). to_mark (ob_id q) q' \<longrightarrow>
      sint (ob_publish_attempts q') \<noteq> 2 ^ 31 - 1"
    using unpublished_attempts [OF assms(1)] by (simp add: to_mark_def)
  ultimately have "sql_mark_published d db (ob_id q) = Inr (mark_published d (ob_id q) db, 1)"
    by (simp add: sql_mark_Inr)
  with assms(2) show ?thesis by (simp add: mark_and_commit_def commit_tx_def)
qed

lemma PublishNext_clean:
  assumes "outbox_inv db" and "fault d = (\<lambda>_. None)" and "driver_times d"
  shows "PublishNext d locked (Some p) None db e =
    (case next_unpublished locked db of
       None \<Rightarrow> (Inr False, db, e)
     | Some q \<Rightarrow>
         (case p (the (event_of_row d q)) e of
            (None, e1) \<Rightarrow> (Inr True, mark_published d (ob_id q) db, e1)
          | (Some err, e1) \<Rightarrow> (Inl (ErrWrap ''publish outbox event'' err), db, e1)))"
proof (cases "next_unpublished locked db")
  case None
  with assms show ?thesis by (simp add: PublishNext_def sql_select_outbox_def)
next
  case (Some q)
  from event_of_row_some [OF assms(3)] obtain ev where
    ev: "event_of_row d q = Some ev" "oe_ID ev = ob_id q" by blast
  have "mark_and_commit d db (ob_id q) = (mark_published d (ob_id q) db, Inr True)"
    using next_unpublished_Some(1) [OF Some] assms by (intro mark_and_commit_clean) auto
  with Some ev assms(2) show ?thesis
    by (simp add: PublishNext_def sql_select_outbox_def publish_and_mark_def split: option.split prod.split)
qed

section \<open>Sample\<close>

text \<open>A publisher that keeps what it was given, newest last.\<close>

definition record_event :: "OutboxEvent \<Rightarrow> OutboxEvent list \<Rightarrow> go_error option \<times> OutboxEvent list"
where
  "record_event ev log = (None, log @ [ev])"

lemma house_inv_after_first [simp]: "house_inv house_after_first"
  using anti_snipe_house_inv [OF house_inv_one_auction anti_snipe_first] .

lemma next_after_first:
  "next_unpublished (\<lambda>_. False) house_after_first =
     Some (accepted_event good_driver first_bid 5000000 first_answer)"
  by (simp add: next_unpublished_def unpublished_def house_after_first_def accepted_event_def)

definition first_event :: OutboxEvent where
  "first_event = the (event_of_row good_driver
     (accepted_event good_driver first_bid 5000000 first_answer))"

lemma event_of_first:
  "event_of_row good_driver (accepted_event good_driver first_bid 5000000 first_answer) =
     Some first_event"
  using event_of_row_some [OF driver_times_good,
      of "accepted_event good_driver first_bid 5000000 first_answer"]
  by (auto simp: first_event_def)

section \<open>Properties\<close>

text \<open>
  C20. No event is marked before it is published: the only way a call changes the database is
  that the oldest unpublished event not held by another transaction was handed to the publish
  function, which returned no error, and exactly that row is marked; this also when the COMMIT's
  acknowledgement is lost. A call that returns \<open>true\<close> did so.
\<close>

theorem publish_before_mark:
  assumes "PublishNext d locked (Some p) h db e = (r, db', e')"
  shows "(db' = db \<and> r \<noteq> Inr True) \<or>
    (\<exists>q ev e1. q \<in> set (unpublished db) \<and> \<not> locked (ob_id q) \<and>
       (\<forall>q' \<in> set (unpublished db). \<not> locked (ob_id q') \<longrightarrow> order_key q \<le> order_key q') \<and>
       event_of_row d q = Some ev \<and> p ev e = (None, e1) \<and>
       db' = mark_published d (ob_id q) db \<and> (r = Inr True \<or> fault d CallCommit \<noteq> None))"
  using PublishNext_outcome [OF assms] next_unpublished_Some by blast

lemma publish_before_mark_witness:
  "PublishNext good_driver (\<lambda>_. False) (Some record_event) None house_after_first [] =
     (Inr True, mark_published good_driver 77 house_after_first, [first_event]) \<and>
   (\<exists>q. q \<in> set (unpublished house_after_first))"
proof -
  have run: "PublishNext good_driver (\<lambda>_. False) (Some record_event) None house_after_first [] =
     (Inr True, mark_published good_driver 77 house_after_first, [first_event])"
    using PublishNext_clean [of house_after_first good_driver "\<lambda>_. False" record_event "[]"]
      house_inv_after_first
    by (simp add: house_inv_def fault_good_driver next_after_first record_event_def event_of_first)
      (simp add: accepted_event_def)
  from publish_before_mark [OF run] run show ?thesis by auto
qed

text \<open>
  Publishing keeps I1 and the correspondence of events and bids, whatever fails; in
  particular an event is marked together with the step of its attempt counter from 0 to 1, so
  \<open>publish_attempts\<close> never counts an attempt that failed.
\<close>

theorem publish_keeps_house_inv:
  assumes "house_inv db"
  shows "house_inv (fst (snd (PublishNext d locked p h db e)))"
  using PublishNext_house_inv [OF assms] by (metis prod.collapse)

lemma publish_keeps_house_inv_witness:
  "house_inv (fst (snd (PublishNext good_driver (\<lambda>_. False) (Some record_event) None
     house_after_first [])))"
  by (rule publish_keeps_house_inv) simp

text \<open>
  At least once, not exactly once: when the process stops between the publication and the
  mark (the hook reports an error), the subscriber has seen the event, the database has not
  changed, and the next call that does not fail publishes the same event again.
\<close>

theorem crash_before_mark_redelivers:
  assumes "outbox_inv db" and "fault d = (\<lambda>_. None)" and "driver_times d"
    and "next_unpublished locked db = Some q" and "p (the (event_of_row d q)) e = (None, e1)"
    and "h (the (event_of_row d q)) e1 = (Some err, e2)"
    and "p (the (event_of_row d q)) e2 = (None, e3)"
  shows "PublishNext d locked (Some p) (Some h) db e =
      (Inl (ErrWrap ''after publishing outbox event'' err), db, e2) \<and>
    PublishNext d locked (Some p) None db e2 = (Inr True, mark_published d (ob_id q) db, e3)"
proof
  from event_of_row_some [OF assms(3)] obtain ev where "event_of_row d q = Some ev" by blast
  with assms show "PublishNext d locked (Some p) (Some h) db e =
      (Inl (ErrWrap ''after publishing outbox event'' err), db, e2)"
    by (simp add: PublishNext_def sql_select_outbox_def publish_and_mark_def)
  show "PublishNext d locked (Some p) None db e2 = (Inr True, mark_published d (ob_id q) db, e3)"
    using assms by (simp add: PublishNext_clean)
qed

lemma crash_before_mark_redelivers_witness:
  "PublishNext good_driver (\<lambda>_. False) (Some record_event)
      (Some (\<lambda>_ log. (Some (ErrNew ''crash''), log))) house_after_first [] =
     (Inl (ErrWrap ''after publishing outbox event'' (ErrNew ''crash'')), house_after_first,
      [first_event])"
  using crash_before_mark_redelivers [of house_after_first good_driver "\<lambda>_. False"
      "accepted_event good_driver first_bid 5000000 first_answer" record_event "[]" "[first_event]"
      "\<lambda>_ log. (Some (ErrNew ''crash''), log)" "ErrNew ''crash''" "[first_event]"
      "[first_event, first_event]"] house_inv_after_first
  by (simp add: house_inv_def fault_good_driver next_after_first record_event_def event_of_first)

end
