(* ===== verification/Ledger_Schema.thy ===== *)
theory Ledger_Schema
  imports Sql_Transactions Outbox_Store
begin

text \<open>
  The constraints of \<^verbatim>\<open>src/migrations\<close> as one predicate on the tables: what holds of every row,
  between tables, and of the unique indexes. Every statement of the Go code keeps it, so does
  every transaction made of these statements, in particular those of the stores, whatever
  their arguments and whatever fails.
\<close>

section \<open>The schema\<close>

definition bid_number_key :: "bid_row \<Rightarrow> uuid \<times> int64" where
  "bid_number_key r = (row_auction_id r, row_sequence_no r)"

definition bid_idempotency_key :: "bid_row \<Rightarrow> uuid \<times> uuid" where
  "bid_idempotency_key r = (row_auction_id r, row_idempotency_key r)"

definition outbox_event_key :: "outbox_row \<Rightarrow> string \<times> uuid \<times> int64" where
  "outbox_event_key q = (ob_event_type q, ob_aggregate_id q, ob_aggregate_sequence q)"

definition bids_ok :: "database \<Rightarrow> bool" where
  "bids_ok db \<longleftrightarrow>
     (\<forall>r \<in> set (bids db). 0 < sint (row_sequence_no r) \<and> 0 < row_amount r \<and>
        auctions db (row_auction_id r) \<noteq> None) \<and>
     distinct (map bid_number_key (bids db)) \<and> distinct (map bid_idempotency_key (bids db))"

definition sequences_ok :: "database \<Rightarrow> bool" where
  "sequences_ok db \<longleftrightarrow>
     (\<forall>a n. auction_sequences db a = Some n \<longrightarrow> 0 \<le> sint n \<and> auctions db a \<noteq> None)"

definition outbox_ok :: "database \<Rightarrow> bool" where
  "outbox_ok db \<longleftrightarrow>
     (\<forall>q \<in> set (outbox db). btrim (ob_event_type q) \<noteq> [] \<and> btrim (ob_aggregate_type q) \<noteq> [] \<and>
        0 < sint (ob_aggregate_sequence q) \<and> 0 \<le> sint (ob_publish_attempts q)) \<and>
     distinct (map ob_id (outbox db)) \<and> distinct (map outbox_event_key (outbox db))"

definition schema_ok :: "database \<Rightarrow> bool" where
  "schema_ok db \<longleftrightarrow>
     (\<forall>a r. auctions db a = Some r \<longrightarrow> auction_row_ok r) \<and>
     bids_ok db \<and> sequences_ok db \<and> outbox_ok db"

section \<open>Statements\<close>

lemma schema_frame [simp]:
  "bids_ok (db\<lparr>auction_sequences := q\<rparr>) = bids_ok db"
  "bids_ok (db\<lparr>outbox := ob\<rparr>) = bids_ok db"
  "bids_ok (db\<lparr>native_sequences := ns\<rparr>) = bids_ok db"
  "sequences_ok (db\<lparr>bids := bs\<rparr>) = sequences_ok db"
  "sequences_ok (db\<lparr>outbox := ob\<rparr>) = sequences_ok db"
  "sequences_ok (db\<lparr>native_sequences := ns\<rparr>) = sequences_ok db"
  "outbox_ok (db\<lparr>auction_sequences := q\<rparr>) = outbox_ok db"
  "outbox_ok (db\<lparr>auctions := u\<rparr>) = outbox_ok db"
  "outbox_ok (db\<lparr>bids := bs\<rparr>) = outbox_ok db"
  "outbox_ok (db\<lparr>native_sequences := ns\<rparr>) = outbox_ok db"
  by (simp_all add: bids_ok_def sequences_ok_def outbox_ok_def)

lemma ensure_schema:
  "sql_ensure_sequence db a = Inr db' \<Longrightarrow> schema_ok db \<Longrightarrow> schema_ok db'"
  by (auto simp: sql_ensure_sequence_def schema_ok_def sequences_ok_def
      split: option.splits if_splits)

lemma bids_ok_insert:
  assumes "bids_ok db" and "check_bid r = Inr u" and "auctions db (row_auction_id r) \<noteq> None"
    and "find_bid db (row_auction_id r) (row_idempotency_key r) = None"
    and "\<not> sequence_taken db (row_auction_id r) (row_sequence_no r)"
  shows "bids_ok (db\<lparr>bids := bids db @ [r]\<rparr>)"
  using assms
  by (auto simp: bids_ok_def check_bid_Inr sequence_taken_def find_bid_def find_None_iff
      bid_number_key_def bid_idempotency_key_def)

lemma insert_conflict_schema:
  "sql_insert_bid_on_conflict db r = Inr (db', x) \<Longrightarrow> schema_ok db \<Longrightarrow> schema_ok db'"
  using bids_ok_insert [of db r "()"]
  by (auto simp: sql_insert_conflict_Inr schema_ok_def split: if_splits)

lemma insert_bid_schema:
  "sql_insert_bid db r = Inr db' \<Longrightarrow> schema_ok db \<Longrightarrow> schema_ok db'"
  using bids_ok_insert [of db r "()"]
  by (auto simp: sql_insert_bid_def schema_ok_def split: sum.splits if_splits)

lemma advance_schema:
  "sql_advance_sequence db a new old = Inr (db', n) \<Longrightarrow> schema_ok db \<Longrightarrow> schema_ok db'"
  by (auto simp: sql_advance_sequence_def schema_ok_def sequences_ok_def word_sless_alt
      split: if_splits)

lemma extend_schema:
  assumes "sql_extend_auction d db a t = Inr (db', x)" and "schema_ok db"
  shows "schema_ok db'"
proof (cases "auctions db a")
  case (Some r)
  from sql_extend_auction_Inr [OF Some assms(1)]
  have db': "db' = db\<lparr>auctions := (auctions db)(a \<mapsto> row_after d r t)\<rparr>" by simp
  have "auction_row_ok (row_after d r t)"
    using assms(2) Some by (auto simp: schema_ok_def intro: row_after_ok)
  with assms(2) show ?thesis
    unfolding db' by (auto simp: schema_ok_def bids_ok_def sequences_ok_def)
qed (use assms in \<open>simp add: sql_extend_auction_def\<close>)

lemma insert_outbox_schema:
  "sql_insert_outbox d db ty agg a n payload = Inr (db', x) \<Longrightarrow> schema_ok db \<Longrightarrow> schema_ok db'"
  by (auto simp: sql_insert_outbox_def schema_ok_def outbox_ok_def word_sless_alt
      outbox_event_key_def split: if_splits) metis

lemma sint32_attempts:
  fixes n :: int32
  assumes "0 \<le> sint n" and "sint n \<noteq> 2 ^ 31 - 1"
  shows "0 \<le> sint (n + 1)"
  using assms sint32_bounds [of n] sint32_add [of n 1] by simp

lemma mark_schema:
  assumes "sql_mark_published d db i = Inr (db', x)" and "schema_ok db"
  shows "schema_ok db'"
proof -
  from assms(1) have db': "db' = db\<lparr>outbox := map (marked d i) (outbox db)\<rparr>"
    and room: "\<And>q. q \<in> set (outbox db) \<Longrightarrow> to_mark i q \<Longrightarrow> sint (ob_publish_attempts q) \<noteq> 2 ^ 31 - 1"
    by (auto simp: sql_mark_published_def split: if_splits)
  have "ob_id \<circ> marked d i = ob_id" and "outbox_event_key \<circ> marked d i = outbox_event_key"
    by (auto simp: marked_def outbox_event_key_def)
  moreover have "0 \<le> sint (ob_publish_attempts (marked d i q))"
    if "q \<in> set (outbox db)" and "0 \<le> sint (ob_publish_attempts q)" for q
    using room [OF that(1)] that(2) by (simp add: marked_def sint32_attempts)
  moreover have "ob_event_type (marked d i q) = ob_event_type q"
    and "ob_aggregate_type (marked d i q) = ob_aggregate_type q"
    and "ob_aggregate_sequence (marked d i q) = ob_aggregate_sequence q" for q
    by (simp_all add: marked_def)
  ultimately show ?thesis
    using assms(2) unfolding db' by (simp add: schema_ok_def outbox_ok_def)
qed

lemma nextval_schema:
  "sql_nextval db name = Inr (db', n) \<Longrightarrow> schema_ok db \<Longrightarrow> schema_ok db'"
  by (auto simp: sql_nextval_def schema_ok_def split: option.splits if_splits)

section \<open>Transactions\<close>

lemma run_alone_schema:
  assumes "schema_ok v" and "run_alone p d v = Inr (v', msg, r)"
  shows "schema_ok v'"
  using assms
proof (induction p arbitrary: v)
  case (EnsureSequence a k)
  then show ?case
    by (auto split: sum.splits intro: ensure_schema EnsureSequence.IH [OF rangeI])
next
  case (InsertBid row k)
  then show ?case
    by (auto split: sum.splits intro: insert_conflict_schema InsertBid.IH [OF rangeI])
next
  case (AdvanceSequence a new old k)
  then show ?case
    by (auto split: sum.splits intro: advance_schema AdvanceSequence.IH [OF rangeI])
next
  case (ExtendAuction a t k)
  then show ?case
    by (auto split: sum.splits intro: extend_schema ExtendAuction.IH [OF rangeI])
next
  case (InsertOutbox ty agg a n payload k)
  then show ?case
    by (auto split: sum.splits intro: insert_outbox_schema InsertOutbox.IH [OF rangeI])
qed (simp_all, blast+)

lemma commit_schema:
  "schema_ok db \<Longrightarrow> schema_ok work \<Longrightarrow> schema_ok (fst (commit_tx d db work msg r))"
  by (simp add: commit_tx_def split: option.split)

lemma finish_schema:
  "schema_ok db \<Longrightarrow> schema_ok (fst (finish d db (complete p d [] db)))"
  by (auto simp: finish_complete intro: commit_schema run_alone_schema split: sum.split)

lemma anti_snipe_schema:
  "schema_ok db \<Longrightarrow> schema_ok (fst (AppendBidIdempotentWithAntiSnipe d bid t db))"
  using finish_schema [of db d "anti_snipe_tx d bid t"] by (simp add: anti_snipe_tx_run)

lemma row_lock_schema:
  "schema_ok db \<Longrightarrow> schema_ok (fst (AppendBidIdempotentRowLock d bid db))"
  using finish_schema [of db d "row_lock_tx bid"] by (simp add: row_lock_tx_run)

lemma native_schema:
  assumes "schema_ok db"
  shows "schema_ok (fst (AppendBidPostgresSequence uuid_string d bid db))"
  using assms
  by (auto simp: AppendBidPostgresSequence_def insertBid_def nextval_schema
      intro!: commit_schema intro: insert_bid_schema nextval_schema split: option.split sum.split)

lemma publish_schema:
  assumes "schema_ok db"
  shows "schema_ok (fst (snd (PublishNext d locked p h db e)))"
proof -
  have "schema_ok (fst (mark_and_commit d db i))" for i
    using assms
    by (auto simp: mark_and_commit_def intro!: commit_schema intro: mark_schema split: sum.split)
  with assms show ?thesis
    by (auto simp: PublishNext_def publish_and_mark_def split: option.split sum.split prod.split)
      (metis fst_conv)+
qed

lemma schema_one_auction: "schema_ok one_auction_db"
  by (simp add: schema_ok_def bids_ok_def sequences_ok_def outbox_ok_def)

end
