(* ===== verification/Auction_System.thy ===== *)
theory Auction_System
  imports Outbox_Store "HOL-Library.Sublist"
begin

text \<open>
  The database under everything that changes it: auctions are opened, the engine appends bids,
  the relay marks events, each as one committed transaction, in any order, with any failures.
  That the statements of concurrent transactions amount to such a history is proved in
  \<open>Interleaving\<close>.
\<close>

section \<open>Steps\<close>

text \<open>
  An auction is opened by an INSERT that the \<open>CHECK\<close> constraints let pass; its close time is a
  value of the type. A bid comes with the time of its stream entry, which is not before 1970.
  The environment of the relay is what was published so far.
\<close>

definition close_valid :: "auction_row \<Rightarrow> bool" where
  "close_valid r \<longleftrightarrow>
     (case effective_close_time r of Ts us \<Rightarrow> ts_valid us | _ \<Rightarrow> True)"

inductive system_step :: "database \<Rightarrow> database \<Rightarrow> bool" where
  step_open: "auctions db a = None \<Longrightarrow> auction_row_ok r \<Longrightarrow> close_valid r \<Longrightarrow>
    system_step db (db\<lparr>auctions := (auctions db)(a \<mapsto> r)\<rparr>)"
| step_bid: "driver_times d \<Longrightarrow> 0 \<le> t \<Longrightarrow>
    AppendBidIdempotentWithAntiSnipe d bid t db = (db', res) \<Longrightarrow> system_step db db'"
| step_publish: "PublishNext d locked p h db (log :: OutboxEvent list) = (r, db', log') \<Longrightarrow>
    system_step db db'"

inductive_cases system_stepE: "system_step db db'"

abbreviation system_steps :: "database \<Rightarrow> database \<Rightarrow> bool" where
  "system_steps \<equiv> system_step\<^sup>*\<^sup>*"

definition empty_db :: database where
  "empty_db = \<lparr> auctions = Map.empty, bids = [], auction_sequences = Map.empty, outbox = [],
     native_sequences = Map.empty \<rparr>"

section \<open>The invariant\<close>

text \<open>I3 as the events tell it: the bid was submitted before the close time the event carries.\<close>

definition in_time :: "outbox_row \<Rightarrow> bool" where
  "in_time q \<longleftrightarrow>
     (\<exists>s c. map_of (ob_payload q) ''submitted_at'' = Some (JTime (Ts s)) \<and>
        map_of (ob_payload q) ''effective_close_time'' = Some (JTime c) \<and> ts_less (Ts s) c)"

definition system_inv :: "database \<Rightarrow> bool" where
  "system_inv db \<longleftrightarrow>
     house_inv db \<and> (\<forall>a r. auctions db a = Some r \<longrightarrow> close_valid r) \<and>
     (\<forall>q \<in> set (outbox db). in_time q)"

lemma row_after_valid:
  assumes "close_valid r"
  shows "close_valid (row_after d r t)"
  using assms
  by (cases "effective_close_time r")
    (auto simp: row_after_def extend_auction_row_def Let_def close_valid_def
      split: sum.splits option.splits if_splits)

text \<open>The close time only moves forward.\<close>

lemma row_after_later:
  assumes "auction_row_ok r" and "effective_close_time r = Ts us"
  shows "\<exists>us'. effective_close_time (row_after d r t) = Ts us' \<and> us \<le> us'"
  using assms
  by (auto simp: row_after_def extend_auction_row_def Let_def auction_row_ok_def
      split: sum.splits option.splits if_splits)

lemma driver_times_scan:
  "driver_times d \<Longrightarrow> scan_time d ts = Some c \<Longrightarrow> \<exists>us. ts = Ts us \<and> c = us * 1000"
  by (cases ts) (auto simp: driver_times_def)

lemma accepted_event_in_time:
  assumes "driver_times d" and "0 \<le> t" and "anti_snipe_commits d bid t r db work res"
    and "recorded db (bid_key bid) = None" and "auction_row_ok r" and "close_valid r"
  shows "in_time (accepted_event d bid t res)"
proof -
  from assms(3,4) obtain c where c: "scan_time d (effective_close_time r) = Some c" "t < c"
    and new: "scan_time d (effective_close_time (row_after d r t)) = Some (EffectiveCloseTime res)"
    by (auto simp: anti_snipe_commits_def)
  from driver_times_scan [OF assms(1) c(1)] obtain us where
    us: "effective_close_time r = Ts us" "c = us * 1000" by blast
  from row_after_later [OF assms(5) us(1)] obtain us' where
    us': "effective_close_time (row_after d r t) = Ts us'" "us \<le> us'" by blast
  have valid: "ts_valid us" "ts_valid us'"
    using assms(6) row_after_valid [OF assms(6), of d t] us us' by (simp_all add: close_valid_def)
  have before: "t div 1000 < us" using c(2) us(2) by (simp add: before_scanned_iff)
  then have "ts_valid (t div 1000)" using valid(1) assms(2) by (simp add: ts_valid_def)
  moreover have "EffectiveCloseTime res = us' * 1000"
    using assms(1) new us'(1) by (simp add: driver_times_def)
  ultimately have "encode_time d t = Ts (t div 1000)"
    and "encode_time d (EffectiveCloseTime res) = Ts us'"
    using assms(1) valid(2) by (simp_all add: driver_times_def)
  with before us'(2) show ?thesis
    by (simp add: in_time_def accepted_event_def bid_accepted_payload_def)
qed

lemma commits_system_inv:
  assumes "system_inv db" and "auctions db (bp_AuctionID bid) = Some r"
    and "anti_snipe_commits d bid t r db db' res" and "driver_times d" and "0 \<le> t"
  shows "system_inv db'"
proof -
  have inv: "ledger_inv db" "outbox_inv db" and row: "auction_row_ok r" "close_valid r"
    using assms(1,2) by (auto simp: system_inv_def house_inv_def ledger_inv_def)
  have "house_inv db'"
    using anti_snipe_commits_ledger_inv [OF inv(1) assms(2,3)]
      anti_snipe_commits_outbox_inv [OF inv(2) assms(3)] by (simp add: house_inv_def)
  moreover have "recorded db (bid_key bid) = None \<Longrightarrow> in_time (accepted_event d bid t res)"
    using assms(3-5) row by (intro accepted_event_in_time)
  ultimately show ?thesis
    using assms(1,3) row_after_valid [OF row(2), of d t]
    by (cases "recorded db (bid_key bid)")
      (auto simp: system_inv_def anti_snipe_commits_def)
qed

lemma in_time_marked [simp]: "in_time (marked d i q) = in_time q"
  by (simp add: in_time_def marked_def)

lemma system_inv_step:
  assumes "system_step db db'" and "system_inv db"
  shows "system_inv db'"
  using assms(1)
proof cases
  case (step_open a r)
  have "ledger_inv db'"
    using assms(2) step_open unfolding system_inv_def house_inv_def ledger_inv_def auction_inv_def by auto
  with assms(2) step_open show ?thesis
    by (auto simp: system_inv_def house_inv_def outbox_inv_def)
next
  case (step_bid d t bid res)
  from anti_snipe_outcome [OF step_bid(3)] assms(2) commits_system_inv step_bid(1,2) show ?thesis by blast
next
  case (step_publish d locked p h log r log')
  have house: "house_inv db'"
    using PublishNext_house_inv [OF _ step_publish] assms(2) by (simp add: system_inv_def)
  have "db' = db \<or> (\<exists>i. db' = mark_published d i db)"
  proof (cases p)
    case None
    with step_publish show ?thesis by (auto simp: PublishNext_def)
  next
    case (Some f)
    with PublishNext_outcome [of d locked f h db log] step_publish show ?thesis by blast
  qed
  with house assms(2) show ?thesis by (auto simp: system_inv_def mark_published_def)
qed

lemma system_inv_steps: "system_steps db db' \<Longrightarrow> system_inv db \<Longrightarrow> system_inv db'"
  by (induction rule: rtranclp_induct) (auto intro: system_inv_step)

lemma system_inv_empty: "system_inv empty_db"
  by (simp add: system_inv_def house_inv_def ledger_inv_def auction_inv_def outbox_inv_def
      empty_db_def auction_bids_def last_seq_def)

section \<open>What a history keeps\<close>

lemma step_cases_db:
  assumes "system_step db db'"
  shows "(\<exists>a r. auctions db a = None \<and> db' = db\<lparr>auctions := (auctions db)(a \<mapsto> r)\<rparr>) \<or>
    (\<exists>d t bid res. AppendBidIdempotentWithAntiSnipe d bid t db = (db', res)) \<or>
    db' = db \<or> (\<exists>d i. db' = mark_published d i db)"
  using assms
proof cases
  case (step_publish d locked p h log r log')
  then show ?thesis
  proof (cases p)
    case (Some f)
    with PublishNext_outcome [of d locked f h db log] step_publish show ?thesis by blast
  qed (auto simp: PublishNext_def)
qed blast+

lemma step_row:
  assumes "system_step db db'" and "system_inv db" and "auctions db a = Some r"
  shows "\<exists>n r'. auctions db' a = Some r' \<and> extended_by n r r'"
proof -
  have inv: "ledger_inv db" using assms(2) by (simp add: system_inv_def house_inv_def)
  then have row: "auction_row_ok r" using assms(3) by (auto simp: ledger_inv_def)
  have "auctions db' a = auctions db a \<or>
      (\<exists>d t bid res. AppendBidIdempotentWithAntiSnipe d bid t db = (db', res))"
    using step_cases_db [OF assms(1)] assms(3)
    by (elim disjE exE conjE) (auto simp: mark_published_def)
  then consider "auctions db' a = auctions db a"
    | d t bid res where "AppendBidIdempotentWithAntiSnipe d bid t db = (db', res)"
    by blast
  then show ?thesis
  proof cases
    case 1
    with assms(3) extended_by_0 [OF row] show ?thesis by metis
  next
    case 2
    from anti_snipe_row_step [OF inv assms(3) this] show ?thesis by blast
  qed
qed

lemma steps_row:
  assumes "system_steps db db'" and "system_inv db" and "auctions db a = Some r"
  shows "\<exists>n r'. auctions db' a = Some r' \<and> extended_by n r r'"
  using assms(1)
proof (induction rule: rtranclp_induct)
  case base
  have "auction_row_ok r" using assms(2,3) by (auto simp: system_inv_def house_inv_def ledger_inv_def)
  with assms(3) extended_by_0 show ?case by blast
next
  case (step db1 db2)
  then obtain n r' where "auctions db1 a = Some r'" and n: "extended_by n r r'" by blast
  with step_row [OF step.hyps(2) system_inv_steps [OF step.hyps(1) assms(2)]]
  obtain m r'' where "auctions db2 a = Some r''" and "extended_by m r' r''" by blast
  with extended_by_trans [OF n] show ?case by blast
qed

text \<open>An event later in the history: the same, except that it may have been marked since.\<close>

definition same_event :: "outbox_row \<Rightarrow> outbox_row \<Rightarrow> bool" where
  "same_event q q' \<longleftrightarrow>
     q' = q\<lparr>ob_published_at := ob_published_at q', ob_publish_attempts := ob_publish_attempts q'\<rparr> \<and>
     (ob_published_at q \<noteq> None \<longrightarrow> q' = q)"

definition history_kept :: "database \<Rightarrow> database \<Rightarrow> bool" where
  "history_kept db db' \<longleftrightarrow>
     prefix (bids db) (bids db') \<and>
     (\<exists>evs new. outbox db' = evs @ new \<and> list_all2 same_event (outbox db) evs)"

lemma same_event_refl [simp]: "same_event q q"
  by (simp add: same_event_def)

lemma same_event_trans: "same_event q q1 \<Longrightarrow> same_event q1 q2 \<Longrightarrow> same_event q q2"
proof -
  assume a: "same_event q q1" and b: "same_event q1 q2"
  show ?thesis
  proof (cases "ob_published_at q")
    case None
    obtain p1 n1 where q1: "q1 = q\<lparr>ob_published_at := p1, ob_publish_attempts := n1\<rparr>"
      using a unfolding same_event_def by blast
    obtain p2 n2 where q2: "q2 = q1\<lparr>ob_published_at := p2, ob_publish_attempts := n2\<rparr>"
      using b unfolding same_event_def by blast
    show ?thesis using None unfolding q2 q1 by (simp add: same_event_def)
  next
    case (Some x)
    with a have "q1 = q" by (simp add: same_event_def)
    with b show ?thesis by simp
  qed
qed

lemma same_event_marked [simp]: "same_event q (marked d i q)"
  by (simp add: same_event_def marked_def to_mark_def)

lemma list_all2_same_event [simp]: "list_all2 same_event qs qs"
  by (simp add: list.rel_refl)

lemma history_kept_marked:
  assumes "bids db' = bids db" and "outbox db' = map f (outbox db)" and "\<And>q. same_event q (f q)"
  shows "history_kept db db'"
proof -
  have "list_all2 same_event (outbox db) (map f (outbox db))"
    using assms(3) by (simp add: list_all2_map2 list.rel_refl)
  with assms(1,2) show ?thesis by (auto simp: history_kept_def)
qed

lemma history_kept_same:
  "bids db' = bids db \<Longrightarrow> outbox db' = outbox db \<Longrightarrow> history_kept db db'"
  using history_kept_marked [of db' db "\<lambda>q. q"] by simp

lemma history_kept_refl [simp]: "history_kept db db"
  by (rule history_kept_same) simp_all

lemma history_kept_trans:
  assumes "history_kept db db1" and "history_kept db1 db2"
  shows "history_kept db db2"
proof -
  obtain e1 n1 where o1: "outbox db1 = e1 @ n1" "list_all2 same_event (outbox db) e1"
    using assms(1) by (auto simp: history_kept_def)
  obtain e2 n2 where o2: "outbox db2 = e2 @ n2" "list_all2 same_event (outbox db1) e2"
    using assms(2) by (auto simp: history_kept_def)
  from o2(2) o1(1) obtain f1 f2 where "e2 = f1 @ f2" "list_all2 same_event e1 f1"
    by (auto simp: list_all2_append1)
  moreover have "list_all2 same_event (outbox db) f1"
    using same_event_trans o1(2) \<open>list_all2 same_event e1 f1\<close> by (rule list_all2_trans)
  ultimately have "outbox db2 = f1 @ f2 @ n2 \<and> list_all2 same_event (outbox db) f1"
    using o2(1) by simp
  moreover have "prefix (bids db) (bids db2)"
    using assms prefix_order.trans by (auto simp: history_kept_def)
  ultimately show ?thesis unfolding history_kept_def by blast
qed

lemma step_history: "system_step db db' \<Longrightarrow> history_kept db db'"
proof -
  assume "system_step db db'"
  from step_cases_db [OF this] consider
    "bids db' = bids db" "outbox db' = outbox db"
    | d t bid res where "AppendBidIdempotentWithAntiSnipe d bid t db = (db', res)"
    | d i where "db' = mark_published d i db"
    by fastforce
  then show ?thesis
  proof cases
    case 1
    then show ?thesis by (rule history_kept_same)
  next
    case 2
    from anti_snipe_adds [OF this] consider "db' = db"
      | b q where "bids db' = bids db @ [b]" "outbox db' = outbox db @ [q]" by blast
    then show ?thesis
      by cases (auto simp: history_kept_def)
  next
    case 3
    then show ?thesis
      by (intro history_kept_marked [where f = "marked d i"]) (simp_all add: mark_published_def)
  qed
qed

lemma steps_history: "system_steps db db' \<Longrightarrow> history_kept db db'"
  by (induction rule: rtranclp_induct) (auto intro: history_kept_trans step_history)

text \<open>A sample history: an auction is opened, a bid is taken, its event is published.\<close>

lemma sample_opening: "system_steps empty_db one_auction_db"
proof -
  have "close_valid open_auction" by (simp add: close_valid_def open_auction_def ts_valid_def)
  then have "system_step empty_db (empty_db\<lparr>auctions := (auctions empty_db)(7 \<mapsto> open_auction)\<rparr>)"
    by (intro step_open) (simp_all add: empty_db_def)
  then show ?thesis by (simp add: empty_db_def one_auction_db_def)
qed

lemma sample_history:
  "system_steps empty_db (mark_published good_driver 77 house_after_first)"
proof -
  have two: "system_step one_auction_db house_after_first"
    using step_bid [OF driver_times_good _ anti_snipe_first] by simp
  have "PublishNext good_driver (\<lambda>_. False) (Some record_event) None house_after_first [] =
     (Inr True, mark_published good_driver 77 house_after_first, [first_event])"
    using PublishNext_clean [of house_after_first good_driver "\<lambda>_. False" record_event "[]"]
      house_inv_after_first
    by (simp add: house_inv_def fault_good_driver next_after_first record_event_def event_of_first)
      (simp add: accepted_event_def)
  then have "system_step house_after_first (mark_published good_driver 77 house_after_first)"
    by (rule step_publish)
  with sample_opening two show ?thesis by (meson rtranclp.rtrancl_into_rtrancl)
qed

end
