(* ===== verification/Concurrent_Appends.thy ===== *)
theory Concurrent_Appends
  imports Ledger_Schema Auction_System
begin

text \<open>
  Many connections that run the appending transactions at once, one statement at a time, under
  READ COMMITTED and the row locks of PostgreSQL: a statement waits until no other session
  holds a conflicting lock on a row it locks, a session keeps its locks to the end of its
  transaction, and its rows become visible at its COMMIT. Openings of auctions and marks of
  the relay are committed in between. The theory shows that the committed database is at every
  moment what the calls give that have ended, one after another in the order of their ends,
  each as the function of \<open>Anti_Snipe\<close> or \<open>Ledger_Store\<close>, as long as each auction is served by
  one of the two transactions; that a session of the production path waits only for a session
  that can go on; and that the two transactions on one auction can wait for each other for ever.

  A statement takes all its locks at once. A lock on a unique index entry stands for the wait of
  an INSERT for another uncommitted row under the same key; the foreign keys are checked under
  a KEY SHARE lock on the auction.
\<close>

section \<open>Row locks\<close>

datatype row_id =
    AuctionRow uuid
  | CounterRow uuid
  | BidByKey uuid uuid
  | BidByNumber uuid int64
  | OutboxById uuid
  | OutboxByEvent string uuid int64

datatype lock_mode = KeyShare | NoKeyUpdate | ForUpdate

type_synonym row_lock = "row_id \<times> lock_mode"

fun compatible :: "lock_mode \<Rightarrow> lock_mode \<Rightarrow> bool" where
  "compatible KeyShare m = (m \<noteq> ForUpdate)"
| "compatible NoKeyUpdate m = (m = KeyShare)"
| "compatible ForUpdate m = False"

definition conflicts :: "row_lock \<Rightarrow> row_lock \<Rightarrow> bool" where
  "conflicts l l' \<longleftrightarrow> fst l = fst l' \<and> \<not> compatible (snd l) (snd l')"

text \<open>The locks a statement takes on the rows it finds in its view, first the INSERT of the event.\<close>

definition outbox_needs :: "pg_driver \<Rightarrow> string \<Rightarrow> uuid \<Rightarrow> int64 \<Rightarrow> row_lock list" where
  "outbox_needs d ty a n =
     [(OutboxById (generated_uuid d), ForUpdate), (OutboxByEvent ty a n, ForUpdate)]"

fun needs :: "pg_driver \<Rightarrow> database \<Rightarrow> 'r tx \<Rightarrow> row_lock list" where
  "needs d v (LockAuction a k) =
     (if auctions v a = None then [] else [(AuctionRow a, ForUpdate)])"
| "needs d v (EnsureSequence a k) =
     (if auction_sequences v a = None then [(CounterRow a, ForUpdate), (AuctionRow a, KeyShare)]
      else [])"
| "needs d v (LockSequence a k) =
     (if auction_sequences v a = None then [] else [(CounterRow a, ForUpdate)])"
| "needs d v (InsertBid r k) =
     (if find_bid v (row_auction_id r) (row_idempotency_key r) \<noteq> None then []
      else [(BidByKey (row_auction_id r) (row_idempotency_key r), ForUpdate),
            (BidByNumber (row_auction_id r) (row_sequence_no r), ForUpdate),
            (AuctionRow (row_auction_id r), KeyShare)])"
| "needs d v (AdvanceSequence a new old k) =
     (if auction_sequences v a = Some old then [(CounterRow a, NoKeyUpdate)] else [])"
| "needs d v (ExtendAuction a t k) =
     (case auctions v a of
        None \<Rightarrow> []
      | Some r \<Rightarrow> if extend_auction_row d r t = Inr None then [] else [(AuctionRow a, NoKeyUpdate)])"
| "needs d v (InsertOutbox ty agg a n payload k) =
     outbox_needs d ty a n"
| "needs d v _ = []"

text \<open>The call of the driver a statement is; a call that fails there does not wait.\<close>

fun call_of :: "'r tx \<Rightarrow> pg_call" where
  "call_of (Begin k) = CallBegin"
| "call_of (LockAuction a k) = CallLockAuction"
| "call_of (SelectSequence c a i k) = c"
| "call_of (EnsureSequence a k) = CallEnsureSequence"
| "call_of (LockSequence a k) = CallLockSequence"
| "call_of (InsertBid r k) = CallInsertBid"
| "call_of (AdvanceSequence a new old k) = CallAdvanceSequence"
| "call_of (ExtendAuction a t k) = CallExtend"
| "call_of (InsertOutbox ty agg a n payload k) = CallInsertOutbox"
| "call_of _ = CallCommit"

definition takes :: "pg_driver \<Rightarrow> database \<Rightarrow> 'r tx \<Rightarrow> row_lock list" where
  "takes d v p = (if fault d (call_of p) = None then needs d v p else [])"

section \<open>Sessions\<close>

datatype append_call = Snipe BidToPersist time | Row_lock BidToPersist

fun tx_of :: "pg_driver \<Rightarrow> append_call \<Rightarrow> append_result tx" where
  "tx_of d (Snipe bid t) = anti_snipe_tx d bid t"
| "tx_of d (Row_lock bid) = row_lock_tx bid"

fun call_auction :: "append_call \<Rightarrow> uuid" where
  "call_auction (Snipe bid t) = bp_AuctionID bid"
| "call_auction (Row_lock bid) = bp_AuctionID bid"

text \<open>The call as one step, as the other theories have it.\<close>

fun atomic_call :: "pg_driver \<Rightarrow> append_call \<Rightarrow> database \<Rightarrow> database \<times> append_result result" where
  "atomic_call d (Snipe bid t) db =
     map_prod (\<lambda>x. x) (map_sum (\<lambda>e. e) Inl) (AppendBidIdempotentWithAntiSnipe d bid t db)"
| "atomic_call d (Row_lock bid) db =
     map_prod (\<lambda>x. x) (map_sum (\<lambda>e. e) Inr) (AppendBidIdempotentRowLock d bid db)"

record session =
  sn_driver :: pg_driver
  sn_call :: append_call
  sn_tx :: "append_result tx"
  sn_writes :: "row_write list"
  sn_locks :: "row_lock list"

text \<open>What has ended, in the order of the ends.\<close>

datatype entry =
    Called pg_driver append_call "append_result result"
  | Opened uuid auction_row
  | Marked pg_driver uuid

record cluster =
  committed :: database
  sessions :: "nat \<Rightarrow> session option"
  ends :: "entry list"

definition new_session :: "pg_driver \<Rightarrow> append_call \<Rightarrow> session" where
  "new_session d c =
     \<lparr> sn_driver = d, sn_call = c, sn_tx = tx_of d c, sn_writes = [], sn_locks = [] \<rparr>"

definition session_view :: "session \<Rightarrow> database \<Rightarrow> database" where
  "session_view s db = view (sn_writes s) db"

text \<open>The session after its next statement.\<close>

definition advance :: "database \<Rightarrow> session \<Rightarrow> session" where
  "advance db s =
     (let d = sn_driver s; v = session_view s db; (new, p) = tx_step d v (sn_tx s) in
      s\<lparr>sn_tx := p, sn_writes := sn_writes s @ new, sn_locks := sn_locks s @ takes d v (sn_tx s)\<rparr>)"

text \<open>A call that came to an error has ended; its locks go with the ROLLBACK.\<close>

definition verdict :: "session \<Rightarrow> entry list" where
  "verdict s = (case sn_tx s of Stop err \<Rightarrow> [Called (sn_driver s) (sn_call s) (Inl err)] | _ \<Rightarrow> [])"

definition put :: "nat \<Rightarrow> session \<Rightarrow> cluster \<Rightarrow> cluster" where
  "put i s w = w\<lparr>sessions := (sessions w)(i := Some s), ends := ends w @ verdict s\<rparr>"

text \<open>Session \<open>j\<close> is in the way of session \<open>i\<close>.\<close>

definition in_the_way :: "cluster \<Rightarrow> nat \<Rightarrow> nat \<Rightarrow> bool" where
  "in_the_way w j i \<longleftrightarrow>
     j \<noteq> i \<and>
     (\<exists>s s'. sessions w i = Some s \<and> sessions w j = Some s' \<and>
        (\<exists>l \<in> set (takes (sn_driver s) (session_view s (committed w)) (sn_tx s)).
           \<exists>l' \<in> set (sn_locks s'). conflicts l l'))"

definition waits :: "cluster \<Rightarrow> nat \<Rightarrow> bool" where
  "waits w i \<longleftrightarrow> (\<exists>j. in_the_way w j i)"

section \<open>Steps\<close>

text \<open>The step of session \<open>i\<close>.\<close>

inductive session_step :: "nat \<Rightarrow> cluster \<Rightarrow> cluster \<Rightarrow> bool" where
  statement: "sessions w i = Some s \<Longrightarrow> \<not> ended (sn_tx s) \<Longrightarrow> \<not> waits w i \<Longrightarrow>
    session_step i w (put i (advance (committed w) s) w)"
| commit: "sessions w i = Some s \<Longrightarrow> sn_tx s = Commit msg r \<Longrightarrow>
    commit_tx (sn_driver s) (committed w) (session_view s (committed w)) msg r = (db', res) \<Longrightarrow>
    session_step i w (w\<lparr>committed := db', sessions := (sessions w)(i := None),
      ends := ends w @ [Called (sn_driver s) (sn_call s) res]\<rparr>)"
| rollback: "sessions w i = Some s \<Longrightarrow> sn_tx s = Stop err \<Longrightarrow>
    session_step i w (w\<lparr>sessions := (sessions w)(i := None)\<rparr>)"

inductive_cases session_stepE: "session_step i w w'"

text \<open>
  A step of the whole: a session moves, a call begins on a free connection, whose driver draws
  an id for its event that no other call draws, an auction is opened, an event is marked.
\<close>

inductive cluster_step :: "(append_call \<Rightarrow> bool) \<Rightarrow> cluster \<Rightarrow> cluster \<Rightarrow> bool" for serves where
  move: "session_step i w w' \<Longrightarrow> cluster_step serves w w'"
| start: "sessions w i = None \<Longrightarrow> serves c \<Longrightarrow> driver_times d \<Longrightarrow>
    (\<And>j s. sessions w j = Some s \<Longrightarrow> generated_uuid (sn_driver s) \<noteq> generated_uuid d) \<Longrightarrow>
    cluster_step serves w (put i (new_session d c) w)"
| new_auction: "auctions (committed w) a = None \<Longrightarrow> auction_row_ok r \<Longrightarrow> close_valid r \<Longrightarrow>
    cluster_step serves w (w\<lparr>committed := (committed w)
      \<lparr>auctions := (auctions (committed w))(a \<mapsto> r)\<rparr>, ends := ends w @ [Opened a r]\<rparr>)"
| relay: "PublishNext d locked p h (committed w) (log :: OutboxEvent list) =
      (r, mark_published d i (committed w), log') \<Longrightarrow>
    cluster_step serves w (w\<lparr>committed := mark_published d i (committed w),
      ends := ends w @ [Marked d i]\<rparr>)"

definition idle :: "database \<Rightarrow> cluster" where
  "idle db = \<lparr> committed = db, sessions = (\<lambda>_. None), ends = [] \<rparr>"

inductive reaches :: "(append_call \<Rightarrow> bool) \<Rightarrow> database \<Rightarrow> cluster \<Rightarrow> bool" for serves db where
  at_rest: "reaches serves db (idle db)"
| later: "reaches serves db w \<Longrightarrow> cluster_step serves w w' \<Longrightarrow> reaches serves db w'"

section \<open>The ended calls one after another\<close>

fun replay1 :: "entry \<Rightarrow> database \<Rightarrow> database option" where
  "replay1 (Called d c r) db =
     (case atomic_call d c db of (db', r') \<Rightarrow> if r' = r then Some db' else None)"
| "replay1 (Opened a r) db = Some (db\<lparr>auctions := (auctions db)(a \<mapsto> r)\<rparr>)"
| "replay1 (Marked d i) db = Some (mark_published d i db)"

fun replay :: "entry list \<Rightarrow> database \<Rightarrow> database option" where
  "replay [] db = Some db"
| "replay (e # es) db = Option.bind (replay1 e db) (replay es)"

lemma replay_append: "replay (es @ fs) db = Option.bind (replay es db) (replay fs)"
  by (induction es arbitrary: db) (auto split: Option.bind_split)

section \<open>What a transaction depends on\<close>

text \<open>
  The part of the database that a transaction about the auction \<open>a\<close>, whose event gets the id
  \<open>g\<close>, can see.
\<close>

definition same_slice :: "uuid \<Rightarrow> uuid \<Rightarrow> database \<Rightarrow> database \<Rightarrow> bool" where
  "same_slice g a v v' \<longleftrightarrow>
     auctions v a = auctions v' a \<and> auction_sequences v a = auction_sequences v' a \<and>
     auction_bids v a = auction_bids v' a \<and>
     (g \<in> ob_id ` set (outbox v) \<longleftrightarrow> g \<in> ob_id ` set (outbox v')) \<and>
     (\<forall>ty n. (ty, a, n) \<in> outbox_event_key ` set (outbox v) \<longleftrightarrow>
        (ty, a, n) \<in> outbox_event_key ` set (outbox v'))"

lemma same_slice_refl [simp]: "same_slice g a v v"
  by (simp add: same_slice_def)

lemma slice_insert_outbox:
  assumes "same_slice (generated_uuid d) a v v'"
  shows "map_sum (\<lambda>e. e) (\<lambda>(u, n). (last (outbox u), n)) (sql_insert_outbox d v ty agg a n payload) =
    map_sum (\<lambda>e. e) (\<lambda>(u, n). (last (outbox u), n)) (sql_insert_outbox d v' ty agg a n payload)"
proof -
  have ids: "(\<exists>q \<in> set (outbox u). ob_id q = generated_uuid d) \<longleftrightarrow>
      generated_uuid d \<in> ob_id ` set (outbox u)" for u
    by (auto intro: rev_image_eqI)
  have keys: "(\<exists>q \<in> set (outbox u). ob_event_type q = ty \<and> ob_aggregate_id q = a \<and>
      ob_aggregate_sequence q = n) \<longleftrightarrow> (ty, a, n) \<in> outbox_event_key ` set (outbox u)" for u
    by (auto simp: outbox_event_key_def)
  from assms show ?thesis
    unfolding sql_insert_outbox_def ids keys by (auto simp: same_slice_def violates_def)
qed

lemma tx_step_outbox:
  "tx_step d v (InsertOutbox ty agg a n payload k) =
     (case on_server d CallInsertOutbox (map_sum (\<lambda>e. e) (\<lambda>(u, n). (last (outbox u), n))
         (sql_insert_outbox d v ty agg a n payload)) of
        Inl err \<Rightarrow> ([], k (Inl err))
      | Inr (q, rows) \<Rightarrow> ([WOutbox q], k (Inr rows)))"
  by (auto simp: on_server_def split: option.split sum.split)

lemma slice_step:
  assumes "about p a" and "same_slice (generated_uuid d) a v v'"
  shows "tx_step d v p = tx_step d v' p"
proof (cases p)
  case (InsertOutbox ty agg b n payload k)
  with assms show ?thesis
    unfolding InsertOutbox tx_step_outbox by (simp add: slice_insert_outbox [OF assms(2)])
qed (use assms in \<open>auto simp: same_slice_def sql_lock_auction_def sql_select_sequence_def
      find_bid_auction_bids sql_ensure_sequence_def ensure_writes_def sql_lock_sequence_def
      sql_insert_bid_on_conflict_def check_bid_def sequence_taken_iff sql_advance_sequence_def
      sql_extend_auction_def extend_writes_def on_server_def violates_def
      split: option.splits sum.splits if_splits\<close>)

lemma slice_write: "same_slice g a v v' \<Longrightarrow> same_slice g a (apply_write w v) (apply_write w v')"
  by (cases w) (auto simp: same_slice_def auction_bids_def)

lemma slice_view: "same_slice g a v v' \<Longrightarrow> same_slice g a (view ws v) (view ws v')"
  by (induction ws arbitrary: v v') (simp_all add: view_def slice_write)

lemma tx_step_induct [case_names step]:
  assumes "\<And>p. (\<And>d v. \<not> ended p \<Longrightarrow> P (snd (tx_step d v p))) \<Longrightarrow> P p"
  shows "P p"
  by (induction p; rule assms) (auto split: sum.split option.split prod.split)

lemma slice_complete:
  assumes "about p a" and "same_slice (generated_uuid d) a db db'"
  shows "complete p d ws db = complete p d ws db'"
  using assms(1)
proof (induction p arbitrary: ws rule: tx_step_induct)
  case (step p)
  show ?case
  proof (cases "ended p")
    case True
    then show ?thesis by (cases p) simp_all
  next
    case False
    have "tx_step d (view ws db) p = tx_step d (view ws db') p"
      using step.prems slice_view [OF assms(2)] by (rule slice_step)
    moreover have "complete (snd (tx_step d v p)) d us db = complete (snd (tx_step d v p)) d us db'"
      for v us
      using step.IH [OF False about_tx_step [OF step.prems]] .
    ultimately show ?thesis
      by (simp only: complete_step [of p] Let_def case_prod_beta)
  qed
qed

text \<open>A row written for another auction, or for the event of another call, is not seen.\<close>

fun owned :: "uuid \<Rightarrow> uuid \<Rightarrow> row_write \<Rightarrow> bool" where
  "owned g a (WCounter b n) = (b = a)"
| "owned g a (WBid r) = (row_auction_id r = a)"
| "owned g a (WAuction b r) = (b = a)"
| "owned g a (WOutbox q) = (ob_aggregate_id q = a \<and> ob_id q = g)"

lemma owned_step:
  assumes "about p a"
  shows "\<forall>w \<in> set (fst (tx_step d v p)). owned (generated_uuid d) a w"
  using assms
  by (cases p) (auto simp: ensure_writes_def extend_writes_def sql_insert_outbox_def
      split: sum.split option.split prod.split if_splits)

lemma foreign_write:
  "owned g' b w \<Longrightarrow> b \<noteq> a \<Longrightarrow> g' \<noteq> g \<Longrightarrow> same_slice g a v (apply_write w v)"
  by (cases w) (auto simp: same_slice_def auction_bids_def outbox_event_key_def)

lemma same_slice_trans: "same_slice g a u v \<Longrightarrow> same_slice g a v w \<Longrightarrow> same_slice g a u w"
  by (simp add: same_slice_def)

lemma foreign_writes:
  "\<forall>w \<in> set ws. owned g' b w \<Longrightarrow> b \<noteq> a \<Longrightarrow> g' \<noteq> g \<Longrightarrow> same_slice g a v (view ws v)"
proof (induction ws arbitrary: v)
  case (Cons w ws)
  then have "same_slice g a v (apply_write w v)" by (intro foreign_write) auto
  moreover have "same_slice g a (apply_write w v) (view ws (apply_write w v))"
    using Cons by simp
  ultimately show ?case unfolding view_def fold_Cons comp_apply by (rule same_slice_trans)
qed simp

lemma rows_stay:
  "auction_sequences db a \<noteq> None \<Longrightarrow> auction_sequences (view ws db) a \<noteq> None"
  "auctions db a \<noteq> None \<Longrightarrow> auctions (view ws db) a \<noteq> None"
proof -
  have "(auction_sequences db a \<noteq> None \<longrightarrow> auction_sequences (apply_write w db) a \<noteq> None) \<and>
      (auctions db a \<noteq> None \<longrightarrow> auctions (apply_write w db) a \<noteq> None)" for w db
    by (cases w) simp_all
  then have "(auction_sequences db a \<noteq> None \<longrightarrow> auction_sequences (view ws db) a \<noteq> None) \<and>
      (auctions db a \<noteq> None \<longrightarrow> auctions (view ws db) a \<noteq> None)"
    by (induction ws arbitrary: db) (simp_all add: view_def)
  then show "auction_sequences db a \<noteq> None \<Longrightarrow> auction_sequences (view ws db) a \<noteq> None"
    and "auctions db a \<noteq> None \<Longrightarrow> auctions (view ws db) a \<noteq> None" by blast+
qed

lemma slice_mark: "same_slice g a db (mark_published d i db)"
proof -
  have "ob_id \<circ> marked d i = ob_id" and "outbox_event_key \<circ> marked d i = outbox_event_key"
    by (auto simp: marked_def outbox_event_key_def)
  then show ?thesis
    by (simp add: same_slice_def mark_published_def image_image [symmetric] image_comp
        auction_bids_def)
qed

lemma slice_open: "b \<noteq> a \<Longrightarrow> same_slice g a db (db\<lparr>auctions := (auctions db)(b \<mapsto> r)\<rparr>)"
  by (simp add: same_slice_def)

section \<open>The invariant of a session\<close>

text \<open>The lock under which a transaction does its work.\<close>

fun guard_lock :: "append_call \<Rightarrow> row_lock" where
  "guard_lock (Snipe bid t) = (AuctionRow (bp_AuctionID bid), ForUpdate)"
| "guard_lock (Row_lock bid) = (CounterRow (bp_AuctionID bid), ForUpdate)"

text \<open>Before it holds that lock, a transaction has written nothing and seen nothing that changes.\<close>

fun loose_at :: "pg_driver \<Rightarrow> append_call \<Rightarrow> database \<Rightarrow> append_result tx \<Rightarrow> bool" where
  "loose_at d (Snipe bid t) db p =
     (p = anti_snipe_tx d bid t \<or>
      fault d CallBegin = None \<and> \<not> IsZero t \<and> p = anti_snipe_body d bid t)"
| "loose_at d (Row_lock bid) db p =
     (p = row_lock_tx bid \<or>
      fault d CallBegin = None \<and> (p = row_lock_body bid \<or>
        fault d CallEnsureSequence = None \<and> auction_sequences db (bp_AuctionID bid) \<noteq> None \<and>
        p = row_lock_number bid))"

definition loose :: "database \<Rightarrow> session \<Rightarrow> bool" where
  "loose db s \<longleftrightarrow> sn_writes s = [] \<and> loose_at (sn_driver s) (sn_call s) db (sn_tx s)"

definition guarded :: "database \<Rightarrow> session \<Rightarrow> bool" where
  "guarded db s \<longleftrightarrow>
     guard_lock (sn_call s) \<in> set (sn_locks s) \<and> auctions db (call_auction (sn_call s)) \<noteq> None"

fun stopped :: "'r tx \<Rightarrow> bool" where
  "stopped (Stop err) = True"
| "stopped _ = False"

text \<open>
  If the session ran to its end now, without interruption, it would end as the whole call would
  end now.
\<close>

definition on_course :: "database \<Rightarrow> session \<Rightarrow> bool" where
  "on_course db s \<longleftrightarrow>
     complete (sn_tx s) (sn_driver s) (sn_writes s) db =
     complete (tx_of (sn_driver s) (sn_call s)) (sn_driver s) [] db"

definition session_inv :: "database \<Rightarrow> session \<Rightarrow> bool" where
  "session_inv db s \<longleftrightarrow>
     about (sn_tx s) (call_auction (sn_call s)) \<and>
     (\<forall>w \<in> set (sn_writes s). owned (generated_uuid (sn_driver s)) (call_auction (sn_call s)) w) \<and>
     (stopped (sn_tx s) \<or> on_course db s \<and> (loose db s \<or> guarded db s))"

lemma about_tx_of: "about (tx_of d c) (call_auction c)"
  by (cases c) (simp_all add: about_anti_snipe_tx about_row_lock_tx)

lemma loose_on_course:
  assumes "loose db s"
  shows "on_course db s"
proof (cases "sn_call s")
  case (Snipe bid t)
  with assms show ?thesis by (auto simp: on_course_def loose_def anti_snipe_tx_def or_stop_def)
next
  case (Row_lock bid)
  with assms show ?thesis
    by (auto simp: on_course_def loose_def row_lock_tx_def row_lock_body_def or_stop_def
        sql_ensure_sequence_def ensure_writes_def split: option.splits)
qed

lemma on_course_slice:
  assumes "on_course db s" and "about (sn_tx s) (call_auction (sn_call s))"
    and "same_slice (generated_uuid (sn_driver s)) (call_auction (sn_call s)) db db'"
  shows "on_course db' s"
  using assms slice_complete [OF assms(2,3)] slice_complete [OF about_tx_of assms(3)]
  by (simp add: on_course_def)

lemma advance_simps [simp]:
  "sn_driver (advance db s) = sn_driver s" "sn_call (advance db s) = sn_call s"
  "sn_tx (advance db s) = snd (tx_step (sn_driver s) (session_view s db) (sn_tx s))"
  "sn_writes (advance db s) =
     sn_writes s @ fst (tx_step (sn_driver s) (session_view s db) (sn_tx s))"
  "sn_locks (advance db s) =
     sn_locks s @ takes (sn_driver s) (session_view s db) (sn_tx s)"
  by (simp_all add: advance_def Let_def case_prod_beta)

lemma on_course_advance: "on_course db (advance db s) = on_course db s"
  using complete_step [of "sn_tx s" "sn_driver s" "sn_writes s" db]
  by (simp add: on_course_def session_view_def Let_def case_prod_beta)

lemma loose_advance:
  assumes "loose db s" and "\<not> ended (sn_tx s)" and "sequences_ok db"
  shows "stopped (sn_tx (advance db s)) \<or> loose db (advance db s) \<or> guarded db (advance db s)"
proof (cases "sn_call s")
  case (Snipe bid t)
  with assms show ?thesis
    by (auto simp: loose_def guarded_def anti_snipe_tx_def anti_snipe_body_def takes_def
        session_view_def or_stop_def on_server_def sql_lock_auction_def split: if_splits option.splits)
next
  case (Row_lock bid)
  with assms show ?thesis
    by (auto simp: loose_def guarded_def row_lock_tx_def row_lock_body_def row_lock_number_def
        takes_def session_view_def or_stop_def on_server_def sql_ensure_sequence_def
        ensure_writes_def sql_lock_sequence_def sequences_ok_def violates_def
        split: if_splits option.splits)
qed

lemma session_inv_advance:
  assumes "session_inv db s" and "\<not> ended (sn_tx s)" and "sequences_ok db"
  shows "session_inv db (advance db s)"
proof -
  have "\<not> stopped (sn_tx s)" using assms(2) by (cases "sn_tx s") simp_all
  with assms loose_advance [of db s] show ?thesis
    using about_tx_step owned_step [of "sn_tx s" "call_auction (sn_call s)"]
    by (auto simp: session_inv_def on_course_advance guarded_def)
qed

lemma session_inv_slice:
  assumes "session_inv db s"
    and "same_slice (generated_uuid (sn_driver s)) (call_auction (sn_call s)) db db'"
  shows "session_inv db' s"
proof -
  have "loose db' s = loose db s" and "guarded db' s = guarded db s"
    using assms(2)
    by (cases "sn_call s"; auto simp: loose_def guarded_def same_slice_def)+
  with assms on_course_slice [of db s db'] show ?thesis
    by (auto simp: session_inv_def)
qed

lemma session_inv_loose:
  assumes "session_inv db s" and "loose db s"
    and "\<And>a. auction_sequences db a \<noteq> None \<Longrightarrow> auction_sequences db' a \<noteq> None"
  shows "session_inv db' s"
proof -
  have "loose db' s"
    using assms(2,3) by (cases "sn_call s") (auto simp: loose_def)
  with assms(1) loose_on_course [of db' s] show ?thesis by (simp add: session_inv_def)
qed

text \<open>Each auction is served by one of the two transactions.\<close>

definition one_path :: "(append_call \<Rightarrow> bool) \<Rightarrow> bool" where
  "one_path serves \<longleftrightarrow>
     (\<forall>c c'. serves c \<longrightarrow> serves c' \<longrightarrow> call_auction c = call_auction c' \<longrightarrow>
        guard_lock c = guard_lock c')"

definition apart :: "session \<Rightarrow> session \<Rightarrow> bool" where
  "apart s s' \<longleftrightarrow>
     generated_uuid (sn_driver s) \<noteq> generated_uuid (sn_driver s') \<and>
     (\<forall>l \<in> set (sn_locks s). \<forall>l' \<in> set (sn_locks s'). \<not> conflicts l l')"

lemma conflicts_sym: "conflicts l l' \<Longrightarrow> conflicts l' l"
  by (cases "snd l"; cases "snd l'") (auto simp: conflicts_def)

lemma guard_lock_exclusive [simp]: "conflicts (guard_lock c) (guard_lock c)"
  by (cases c) (simp_all add: conflicts_def)

lemma apart_sym: "apart s s' \<Longrightarrow> apart s' s"
  unfolding apart_def by (metis conflicts_sym)

text \<open>Another session commits.\<close>

lemma session_inv_commit:
  assumes "session_inv db s" and "session_inv db s2" and "apart s s2" and "\<not> stopped (sn_tx s2)"
    and "call_auction (sn_call s) = call_auction (sn_call s2) \<Longrightarrow>
      guard_lock (sn_call s) = guard_lock (sn_call s2)"
  shows "session_inv (session_view s2 db) s"
proof (cases "call_auction (sn_call s) = call_auction (sn_call s2)")
  case False
  have "same_slice (generated_uuid (sn_driver s)) (call_auction (sn_call s)) db (session_view s2 db)"
    unfolding session_view_def using assms(2,3) False
    by (intro foreign_writes [of _ "generated_uuid (sn_driver s2)" "call_auction (sn_call s2)"])
      (auto simp: session_inv_def apart_def)
  with assms(1) show ?thesis by (rule session_inv_slice)
next
  case True
  consider "loose db s2" | "guarded db s2"
    using assms(2,4) by (auto simp: session_inv_def)
  then show ?thesis
  proof cases
    case 1
    with assms(1) show ?thesis by (simp add: loose_def session_view_def)
  next
    case 2
    with True assms(3,5) guard_lock_exclusive have "\<not> guarded db s"
      unfolding guarded_def apart_def by metis
    with assms(1) consider "stopped (sn_tx s)" | "loose db s"
      by (auto simp: session_inv_def)
    then show ?thesis
    proof cases
      case 1
      with assms(1) show ?thesis by (simp add: session_inv_def)
    next
      case 2
      with assms(1) show ?thesis
        unfolding session_view_def by (rule session_inv_loose) (rule rows_stay)
    qed
  qed
qed

end
