(* ===== verification/Interleaving.thy ===== *)
theory Interleaving
  imports Concurrent_Appends
begin

text \<open>
  What holds of the interleaved transactions of \<open>Concurrent_Appends\<close> in every state the cluster can
  reach: the committed database is what the ended calls give one after another; waiting is
  short on the production path; the two appending transactions mixed on one auction deadlock.
\<close>

section \<open>The invariant of the cluster\<close>

definition cluster_inv :: "(append_call \<Rightarrow> bool) \<Rightarrow> database \<Rightarrow> cluster \<Rightarrow> bool" where
  "cluster_inv serves db w \<longleftrightarrow>
     replay (ends w) db = Some (committed w) \<and> schema_ok (committed w) \<and>
     (\<forall>i s. sessions w i = Some s \<longrightarrow> serves (sn_call s) \<and> driver_times (sn_driver s) \<and>
        session_inv (committed w) s) \<and>
     (\<forall>i j s s'. i \<noteq> j \<longrightarrow> sessions w i = Some s \<longrightarrow> sessions w j = Some s' \<longrightarrow> apart s s')"

lemma cluster_apart:
  "cluster_inv serves db w \<Longrightarrow> sessions w i = Some s \<Longrightarrow> sessions w j = Some s' \<Longrightarrow> j \<noteq> i \<Longrightarrow>
     apart s s' \<and> apart s' s"
  using apart_sym by (simp add: cluster_inv_def)

lemma cluster_session:
  "cluster_inv serves db w \<Longrightarrow> sessions w i = Some s \<Longrightarrow>
     serves (sn_call s) \<and> driver_times (sn_driver s) \<and> session_inv (committed w) s"
  by (simp add: cluster_inv_def)

lemma atomic_call_finish:
  "atomic_call d c db = finish d db (complete (tx_of d c) d [] db)"
  by (cases c) (simp_all add: anti_snipe_tx_run row_lock_tx_run)

lemma atomic_call_schema: "schema_ok db \<Longrightarrow> schema_ok (fst (atomic_call d c db))"
  unfolding atomic_call_finish by (rule finish_schema)

text \<open>A session that has come to an error: the whole call would, now, come to that error.\<close>

lemma verdict_replay:
  assumes "on_course db s"
  shows "replay (verdict s) db = Some db"
proof (cases "sn_tx s")
  case (Stop err)
  with assms have "complete (tx_of (sn_driver s) (sn_call s)) (sn_driver s) [] db =
      (sn_writes s, Inl err)"
    by (simp add: on_course_def)
  then have "atomic_call (sn_driver s) (sn_call s) db = (db, Inl err)"
    by (simp add: atomic_call_finish finish_def)
  with Stop show ?thesis by (simp add: verdict_def)
qed (simp_all add: verdict_def)

lemma commit_replay:
  assumes "on_course db s" and "sn_tx s = Commit msg r"
    and "commit_tx (sn_driver s) db (session_view s db) msg r = (db', res)"
  shows "replay1 (Called (sn_driver s) (sn_call s) res) db = Some db'"
proof -
  have "complete (tx_of (sn_driver s) (sn_call s)) (sn_driver s) [] db =
      (sn_writes s, Inr (msg, r))"
    using assms(1,2) by (simp add: on_course_def)
  then have "atomic_call (sn_driver s) (sn_call s) db = (db', res)"
    using assms(3) by (simp add: atomic_call_finish finish_def session_view_def)
  then show ?thesis by simp
qed

lemma commit_tx_cases:
  "commit_tx d db work msg r = (db', res) \<Longrightarrow> db' = work \<or> db' = db"
  by (auto simp: commit_tx_def split: option.splits if_splits)

lemma not_stopped_on_course: "session_inv db s \<Longrightarrow> \<not> stopped (sn_tx s) \<Longrightarrow> on_course db s"
  by (simp add: session_inv_def)

lemma cluster_inv_statement:
  assumes inv: "cluster_inv serves db w" and i: "sessions w i = Some s"
    and run: "\<not> ended (sn_tx s)" and free: "\<not> waits w i"
  shows "cluster_inv serves db (put i (advance (committed w) s) w)"
proof -
  let ?s = "advance (committed w) s"
  have s: "session_inv (committed w) s" "serves (sn_call s)" "driver_times (sn_driver s)"
      "sequences_ok (committed w)"
    using inv i by (auto simp: cluster_inv_def schema_ok_def)
  have "\<not> stopped (sn_tx s)" using run by (cases "sn_tx s") simp_all
  then have "on_course (committed w) ?s"
    using s(1) by (simp add: on_course_advance not_stopped_on_course)
  then have rep: "replay (ends w @ verdict ?s) db = Some (committed w)"
    using inv by (simp add: replay_append verdict_replay cluster_inv_def)
  have "apart ?s s'" if "j \<noteq> i" and "sessions w j = Some s'" for j s'
  proof -
    have "apart s s'" using cluster_apart [OF inv i that(2,1)] by simp
    moreover have "\<not> conflicts l l'"
      if "l \<in> set (takes (sn_driver s) (session_view s (committed w)) (sn_tx s))"
        and "l' \<in> set (sn_locks s')" for l l'
      using free i that \<open>j \<noteq> i\<close> \<open>sessions w j = Some s'\<close>
      by (auto simp: waits_def in_the_way_def)
    ultimately show ?thesis by (auto simp: apart_def)
  qed
  with inv rep s session_inv_advance [OF s(1) run s(4)] show ?thesis
    using apart_sym by (fastforce simp: cluster_inv_def put_def)
qed

lemma cluster_inv_commit:
  assumes inv: "cluster_inv serves db w" and path: "one_path serves"
    and i: "sessions w i = Some s" and tx: "sn_tx s = Commit msg r"
    and com: "commit_tx (sn_driver s) (committed w) (session_view s (committed w)) msg r = (db', res)"
  shows "cluster_inv serves db (w\<lparr>committed := db', sessions := (sessions w)(i := None),
      ends := ends w @ [Called (sn_driver s) (sn_call s) res]\<rparr>)"
proof -
  have s: "session_inv (committed w) s" "serves (sn_call s)" "\<not> stopped (sn_tx s)"
    using inv i tx by (auto simp: cluster_inv_def)
  then have on: "on_course (committed w) s" by (simp add: not_stopped_on_course)
  have rep: "replay1 (Called (sn_driver s) (sn_call s) res) (committed w) = Some db'"
    using on tx com by (rule commit_replay)
  then have "fst (atomic_call (sn_driver s) (sn_call s) (committed w)) = db'"
    by (auto split: prod.splits if_splits)
  then have sch: "schema_ok db'"
    using inv atomic_call_schema [of "committed w"] by (auto simp: cluster_inv_def)
  have "session_inv db' s'" if "j \<noteq> i" and "sessions w j = Some s'" for j s'
  proof -
    have o: "session_inv (committed w) s'" "serves (sn_call s')" "apart s' s"
      using cluster_session [OF inv that(2)] cluster_apart [OF inv i that(2,1)] by simp_all
    from commit_tx_cases [OF com] show ?thesis
    proof
      assume "db' = session_view s (committed w)"
      with o s path show ?thesis
        by (auto simp: one_path_def intro!: session_inv_commit)
    qed (use o in simp)
  qed
  with inv rep sch show ?thesis
    by (auto simp: cluster_inv_def replay_append split: if_splits)
qed

lemma cluster_inv_rollback:
  assumes "cluster_inv serves db w"
  shows "cluster_inv serves db (w\<lparr>sessions := (sessions w)(i := None)\<rparr>)"
  using assms by (auto simp: cluster_inv_def split: if_splits)

lemma cluster_inv_start:
  assumes inv: "cluster_inv serves db w" and i: "sessions w i = None" and c: "serves c"
    and d: "driver_times d"
    and fresh: "\<And>j s. sessions w j = Some s \<Longrightarrow> generated_uuid (sn_driver s) \<noteq> generated_uuid d"
  shows "cluster_inv serves db (put i (new_session d c) w)"
proof -
  let ?s = "new_session d c"
  have on: "on_course (committed w) ?s"
    by (simp add: on_course_def new_session_def)
  have "loose (committed w) ?s \<or> stopped (sn_tx ?s)"
    by (cases c) (auto simp: loose_def new_session_def)
  with on have "session_inv (committed w) ?s"
    by (auto simp: session_inv_def new_session_def about_tx_of)
  moreover have "replay (ends w @ verdict ?s) db = Some (committed w)"
    using inv on by (simp add: replay_append verdict_replay cluster_inv_def)
  moreover have "apart ?s s'" if "sessions w j = Some s'" for j s'
    using fresh [OF that] by (auto simp: apart_def new_session_def)
  ultimately show ?thesis
    using inv c d apart_sym by (fastforce simp: cluster_inv_def put_def new_session_def)
qed

text \<open>The rest of the system commits: no session sees it, or it sees a new auction in time.\<close>

lemma cluster_inv_other:
  assumes inv: "cluster_inv serves db w" and rep: "replay1 e (committed w) = Some db'"
    and sch: "schema_ok db'"
    and keep: "\<And>i s. sessions w i = Some s \<Longrightarrow> session_inv (committed w) s \<Longrightarrow> session_inv db' s"
  shows "cluster_inv serves db (w\<lparr>committed := db', ends := ends w @ [e]\<rparr>)"
  using assms by (auto simp: cluster_inv_def replay_append)

lemma session_inv_opened:
  assumes "session_inv db s" and "auctions db a = None"
  shows "session_inv (db\<lparr>auctions := (auctions db)(a \<mapsto> r)\<rparr>) s"
proof (cases "a = call_auction (sn_call s)")
  case False
  with assms(1) show ?thesis by (intro session_inv_slice [OF _ slice_open])
next
  case True
  with assms consider "stopped (sn_tx s)" | "loose db s"
    by (auto simp: session_inv_def guarded_def)
  then show ?thesis
  proof cases
    case 1
    with assms(1) show ?thesis by (simp add: session_inv_def)
  next
    case 2
    with assms(1) show ?thesis by (rule session_inv_loose) simp
  qed
qed

lemma schema_opened:
  assumes "schema_ok db" and "auctions db a = None" and "auction_row_ok r"
  shows "schema_ok (db\<lparr>auctions := (auctions db)(a \<mapsto> r)\<rparr>)"
  using assms by (auto simp: schema_ok_def bids_ok_def sequences_ok_def)

lemma cluster_inv_step:
  assumes "cluster_step serves w w'" and "cluster_inv serves db w" and "one_path serves"
  shows "cluster_inv serves db w'"
  using assms(1)
proof cases
  case (move i)
  from move assms(2,3) show ?thesis
    by (elim session_stepE)
      (auto intro: cluster_inv_statement cluster_inv_commit cluster_inv_rollback)
next
  case (start i c d)
  with assms(2) show ?thesis by (auto intro: cluster_inv_start)
next
  case (new_auction a r)
  with assms(2) show ?thesis
    unfolding new_auction(1)
    by (intro cluster_inv_other)
      (auto simp: cluster_inv_def intro: schema_opened session_inv_opened)
next
  case (relay d locked p h log r i log')
  have "schema_ok (mark_published d i (committed w))"
    using publish_schema [of "committed w" d locked p h log] relay(2) assms(2)
    by (simp add: cluster_inv_def)
  with assms(2) show ?thesis
    unfolding relay(1)
    by (intro cluster_inv_other) (auto intro: session_inv_slice slice_mark)
qed

lemma cluster_inv_idle: "schema_ok db \<Longrightarrow> cluster_inv serves db (idle db)"
  by (simp add: cluster_inv_def idle_def)

lemma reaches_inv:
  assumes "reaches serves db w" and "schema_ok db" and "one_path serves"
  shows "cluster_inv serves db w"
  using assms(1)
  by induction (use assms(2,3) in \<open>auto intro: cluster_inv_idle cluster_inv_step\<close>)

section \<open>The production path\<close>

text \<open>Every call is an anti-snipe append of a stream entry, whose time is not before 1970.\<close>

definition production :: "append_call \<Rightarrow> bool" where
  "production c \<longleftrightarrow> (\<exists>bid t. c = Snipe bid t \<and> 0 \<le> t)"

lemma one_path_production: "one_path production"
  by (auto simp: one_path_def production_def)

lemma committed_statement [simp]:
  "committed (put i s w) = committed w" "sessions (put i s w) = (sessions w)(i := Some s)"
  by (simp_all add: put_def)

lemma production_step:
  assumes "cluster_step production w w'" and "cluster_inv production db w"
  shows "committed w' = committed w \<or> system_step (committed w) (committed w')"
  using assms(1)
proof cases
  case (move i)
  from move(1) show ?thesis
  proof cases
    case (commit s msg r db' res)
    from commit(2) assms(2) have s: "production (sn_call s)" "driver_times (sn_driver s)"
        "session_inv (committed w) s"
      by (simp_all add: cluster_inv_def)
    from s(1) obtain bid t where c: "sn_call s = Snipe bid t" "0 \<le> t"
      by (auto simp: production_def)
    have "on_course (committed w) s" using s(3) commit(3) by (simp add: not_stopped_on_course)
    from commit_replay [OF this commit(3,4)] c(1)
    obtain r' where "AppendBidIdempotentWithAntiSnipe (sn_driver s) bid t (committed w) = (db', r')"
      by (cases "AppendBidIdempotentWithAntiSnipe (sn_driver s) bid t (committed w)")
        (auto split: if_splits)
    with s(2) c(2) have "system_step (committed w) db'" by (intro step_bid)
    with commit(1) show ?thesis by simp
  qed simp_all
next
  case (new_auction a r)
  then show ?thesis by (auto intro: step_open)
next
  case (relay d locked p h log r i log')
  then show ?thesis by (auto intro: step_publish)
qed simp_all

lemma production_history:
  assumes "reaches production db w" and "schema_ok db"
  shows "system_steps db (committed w)"
  using assms(1)
proof induction
  case (later w w')
  have "committed w' = committed w \<or> system_step (committed w) (committed w')"
    using production_step [OF later.hyps(2) reaches_inv [OF later.hyps(1) assms(2) one_path_production]] .
  with later.IH show ?case by (auto intro: rtranclp.rtrancl_into_rtrancl)
qed (simp add: idle_def)

section \<open>Waiting on the production path\<close>

text \<open>A lock on a row of the auction \<open>a\<close>, or on the event with the id \<open>g\<close>.\<close>

fun lock_owned :: "uuid \<Rightarrow> uuid \<Rightarrow> row_id \<Rightarrow> bool" where
  "lock_owned g a (AuctionRow b) = (b = a)"
| "lock_owned g a (CounterRow b) = (b = a)"
| "lock_owned g a (BidByKey b k) = (b = a)"
| "lock_owned g a (BidByNumber b n) = (b = a)"
| "lock_owned g a (OutboxById i) = (i = g)"
| "lock_owned g a (OutboxByEvent ty b n) = (b = a)"

definition lock_inv :: "session \<Rightarrow> bool" where
  "lock_inv s \<longleftrightarrow>
     (\<forall>l \<in> set (sn_locks s).
        lock_owned (generated_uuid (sn_driver s)) (call_auction (sn_call s)) (fst l)) \<and>
     (sn_locks s = [] \<or> guard_lock (sn_call s) \<in> set (sn_locks s)) \<and> within (sn_tx s) 9"

lemma takes_owned:
  "about p a \<Longrightarrow> l \<in> set (takes d v p) \<Longrightarrow> lock_owned (generated_uuid d) a (fst l)"
  by (cases p) (auto simp: takes_def outbox_needs_def split: if_splits option.splits)

text \<open>The first lock a production call takes is the one on its auction.\<close>

lemma production_first_lock:
  assumes "production (sn_call s)" and "loose db s"
  shows "set (takes (sn_driver s) v (sn_tx s)) \<subseteq> {guard_lock (sn_call s)}"
  using assms
  by (auto simp: production_def loose_def anti_snipe_tx_def anti_snipe_body_def takes_def
      split: if_splits)

lemma within_Suc: "within p n \<Longrightarrow> within p (Suc n)"
  by (induction p arbitrary: n) (simp_all, (metis Suc_pred rangeI)+)

lemma lock_inv_advance:
  assumes "lock_inv s" and "production (sn_call s)" and "session_inv db s" and "\<not> ended (sn_tx s)"
  shows "lock_inv (advance db s)"
proof -
  let ?t = "takes (sn_driver s) (session_view s db) (sn_tx s)"
  have "within (sn_tx s) (Suc 9)"
    using assms(1) within_Suc [of "sn_tx s" 9] by (simp add: lock_inv_def)
  then have "within (sn_tx (advance db s)) 9" by (simp add: within_tx_step)
  moreover have "guard_lock (sn_call s) \<in> set (sn_locks s @ ?t)" if "sn_locks s @ ?t \<noteq> []"
  proof (cases "sn_locks s = []")
    case True
    moreover have "\<not> stopped (sn_tx s)" using assms(4) by (cases "sn_tx s") simp_all
    ultimately have "loose db s" using assms(3) by (auto simp: session_inv_def guarded_def)
    from production_first_lock [OF assms(2) this, of "session_view s db"] that True
    show ?thesis by (cases ?t) auto
  qed (use assms(1) in \<open>simp add: lock_inv_def\<close>)
  ultimately show ?thesis
    using assms(1,3) by (auto simp: lock_inv_def session_inv_def dest: takes_owned)
qed

definition locks_inv :: "cluster \<Rightarrow> bool" where
  "locks_inv w \<longleftrightarrow> (\<forall>i s. sessions w i = Some s \<longrightarrow> lock_inv s)"

lemma locks_inv_step:
  assumes "cluster_step production w w'" and "cluster_inv production db w" and "locks_inv w"
  shows "locks_inv w'"
  using assms(1)
proof cases
  case (move i)
  from move(1) show ?thesis
  proof cases
    case (statement s)
    with assms(2,3) show ?thesis
      by (auto simp: locks_inv_def cluster_inv_def intro: lock_inv_advance)
  qed (use assms(3) in \<open>auto simp: locks_inv_def split: if_splits\<close>)
next
  case (start i c d)
  then have "lock_inv (new_session d c)"
    by (auto simp: lock_inv_def new_session_def production_def within_anti_snipe_tx)
  with start assms(3) show ?thesis by (auto simp: locks_inv_def)
qed (use assms(3) in \<open>auto simp: locks_inv_def\<close>)

lemma reaches_locks_inv:
  assumes "reaches production db w" and "schema_ok db"
  shows "locks_inv w"
  using assms(1)
proof induction
  case (later w w')
  then show ?case
    using locks_inv_step reaches_inv [OF later.hyps(1) assms(2) one_path_production] by blast
qed (simp add: idle_def locks_inv_def)

text \<open>A session in the way of another holds the auction both are about.\<close>

lemma in_the_way_guard:
  assumes "cluster_inv production db w" and "locks_inv w" and "in_the_way w j i"
    and "sessions w i = Some s" and "sessions w j = Some s'"
  shows "call_auction (sn_call s) = call_auction (sn_call s') \<and>
    guard_lock (sn_call s) = guard_lock (sn_call s') \<and>
    guard_lock (sn_call s') \<in> set (sn_locks s')"
proof -
  from assms(3-5) obtain l l' where ij: "j \<noteq> i"
    and l: "l \<in> set (takes (sn_driver s) (session_view s (committed w)) (sn_tx s))"
    and l': "l' \<in> set (sn_locks s')" and con: "conflicts l l'"
    by (auto simp: in_the_way_def)
  note c = cluster_session [OF assms(1,4)] cluster_session [OF assms(1,5)]
  have li': "lock_inv s'" using assms(2,5) by (simp add: locks_inv_def)
  have own: "lock_owned (generated_uuid (sn_driver s)) (call_auction (sn_call s)) (fst l)"
    using c(1) l by (intro takes_owned) (auto simp: session_inv_def)
  have own': "lock_owned (generated_uuid (sn_driver s')) (call_auction (sn_call s')) (fst l)"
    using li' l' con by (simp add: lock_inv_def conflicts_def)
  have "generated_uuid (sn_driver s) \<noteq> generated_uuid (sn_driver s')"
    using cluster_apart [OF assms(1,4,5) ij] by (simp add: apart_def)
  with own own' have "call_auction (sn_call s) = call_auction (sn_call s')"
    by (cases "fst l") auto
  moreover have "guard_lock (sn_call s') \<in> set (sn_locks s')"
    using li' l' by (auto simp: lock_inv_def)
  ultimately show ?thesis using c by (auto simp: production_def)
qed

lemma guard_does_not_wait:
  assumes "cluster_inv production db w" and "locks_inv w" and "sessions w j = Some s'"
    and "guard_lock (sn_call s') \<in> set (sn_locks s')"
  shows "\<not> waits w j"
proof
  assume "waits w j"
  then obtain k where way: "in_the_way w k j" by (auto simp: waits_def)
  then obtain s where k: "sessions w k = Some s" "k \<noteq> j" by (auto simp: in_the_way_def)
  from in_the_way_guard [OF assms(1,2) way assms(3) k(1)] assms(4)
    cluster_apart [OF assms(1) assms(3) k] guard_lock_exclusive
  show False unfolding apart_def by metis
qed

text \<open>A session that holds its auction can run to its end alone.\<close>

lemma guard_runs_to_end:
  assumes "within (sn_tx s) m" and "cluster_inv production db w" and "locks_inv w"
    and "sessions w j = Some s" and "guard_lock (sn_call s) \<in> set (sn_locks s)"
  shows "\<exists>n \<le> m + 1. \<exists>w'. (session_step j ^^ n) w w' \<and> sessions w' j = None \<and>
    (\<forall>k. k \<noteq> j \<longrightarrow> sessions w' k = sessions w k)"
  using assms
proof (induction m arbitrary: s w)
  have last_step: "\<exists>w'. session_step j w w' \<and> sessions w' j = None \<and>
      (\<forall>k. k \<noteq> j \<longrightarrow> sessions w' k = sessions w k)"
    if "ended (sn_tx s)" and "sessions w j = Some s" for s and w :: cluster
  proof (cases "sn_tx s")
    case (Commit msg r)
    obtain db' res where "commit_tx (sn_driver s) (committed w) (session_view s (committed w)) msg r =
        (db', res)" by fastforce
    from session_step.commit [OF that(2) Commit this] show ?thesis by fastforce
  next
    case (Stop err)
    from session_step.rollback [OF that(2) this] show ?thesis by fastforce
  qed (use that in simp_all)
  {
    case 0
    then show ?case
      using last_step [of s w] ended_if_within_0 [of "sn_tx s"] by (metis add_0 le_refl relpowp_1)
  next
    case (Suc m)
    show ?case
    proof (cases "ended (sn_tx s)")
      case True
      with last_step [OF this Suc.prems(4)] show ?thesis by (metis le_add2 relpowp_1)
    next
      case False
      let ?s = "advance (committed w) s" and ?w = "put j (advance (committed w) s) w"
      have free: "\<not> waits w j"
        using Suc.prems(2-5) by (rule guard_does_not_wait)
      with False Suc.prems(4) have step: "session_step j w ?w" by (intro statement)
      have inv: "cluster_inv production db ?w"
        using Suc.prems(2,4) False free by (rule cluster_inv_statement)
      have "locks_inv ?w"
        using locks_inv_step [OF move [OF step] Suc.prems(2,3)] .
      moreover have "within (sn_tx ?s) m" using Suc.prems(1) by (simp add: within_tx_step)
      ultimately obtain n w' where "n \<le> m + 1" and "(session_step j ^^ n) ?w w'"
        and "sessions w' j = None" and "\<forall>k. k \<noteq> j \<longrightarrow> sessions w' k = sessions ?w k"
        using Suc.IH [OF _ inv, of ?s] Suc.prems(5) by auto
      moreover have "(session_step j ^^ Suc n) w w'"
        using step \<open>(session_step j ^^ n) ?w w'\<close> by (rule relpowp_Suc_I2)
      ultimately show ?thesis
        by (intro exI [of _ "Suc n"] conjI exI [of _ w']) (simp_all del: relpowp.simps)
    qed
  }
qed

lemma blocker_ends:
  assumes "cluster_inv production db w" and "locks_inv w" and "waits w i"
  shows "\<exists>j n w'. in_the_way w j i \<and> n \<le> 10 \<and> (session_step j ^^ n) w w' \<and>
    sessions w' j = None \<and> sessions w' i = sessions w i \<and> \<not> waits w' i"
proof -
  from assms(3) obtain j where way: "in_the_way w j i" by (auto simp: waits_def)
  then obtain s s' where i: "sessions w i = Some s" and j: "sessions w j = Some s'" and ij: "j \<noteq> i"
    by (auto simp: in_the_way_def)
  note g = in_the_way_guard [OF assms(1,2) way i j]
  have "within (sn_tx s') 9" using assms(2) j by (simp add: locks_inv_def lock_inv_def)
  from guard_runs_to_end [OF this assms(1,2) j] g obtain n w' where
    n: "n \<le> 10" "(session_step j ^^ n) w w'" and w': "sessions w' j = None"
    "\<forall>k. k \<noteq> j \<longrightarrow> sessions w' k = sessions w k" by auto
  have steps: "(cluster_step production ^^ m) w w1 \<Longrightarrow> cluster_inv production db w1 \<and> locks_inv w1"
    for m w1
  proof (induction m arbitrary: w1)
    case (Suc m)
    then obtain w0 where "(cluster_step production ^^ m) w w0" and "cluster_step production w0 w1"
      by (auto elim: relpowp_Suc_E)
    with Suc.IH one_path_production show ?case
      by (blast intro: cluster_inv_step locks_inv_step)
  qed (use assms in simp)
  have "(cluster_step production ^^ n) w w'"
    using n(2) by (rule relpowp_mono [rotated]) (auto intro: move)
  from steps [OF this] have inv': "cluster_inv production db w'" "locks_inv w'" by simp_all
  have "\<not> waits w' i"
  proof
    assume "waits w' i"
    then obtain k where wk: "in_the_way w' k i" by (auto simp: waits_def)
    then obtain s2 where k: "sessions w' k = Some s2" "k \<noteq> i" by (auto simp: in_the_way_def)
    then have kj: "k \<noteq> j" using w'(1) by auto
    have i': "sessions w' i = Some s" using i w'(2) ij by simp
    from in_the_way_guard [OF inv' wk i' k(1)] g have
      "guard_lock (sn_call s') \<in> set (sn_locks s2)" by simp
    moreover have "sessions w k = Some s2" using k(1) w'(2) kj by simp
    ultimately show False
      using cluster_apart [OF assms(1) j, of k s2] kj g guard_lock_exclusive
      unfolding apart_def by metis
  qed
  with way n w' ij i show ?thesis by metis
qed

section \<open>Two sample clusters\<close>

text \<open>Two bids on one auction, of which the first has locked it.\<close>

definition second_driver :: pg_driver where
  "second_driver = good_driver\<lparr>generated_uuid := 78\<rparr>"

definition second_bid :: BidToPersist where
  "second_bid = first_bid\<lparr>bp_IdempotencyKey := 4, bp_Amount := 200\<rparr>"

definition counted_db :: database where
  "counted_db = one_auction_db\<lparr>auction_sequences := [7 \<mapsto> 0]\<rparr>"

definition after_statements :: "nat \<Rightarrow> pg_driver \<Rightarrow> append_call \<Rightarrow> session" where
  "after_statements n d c = (advance counted_db ^^ n) (new_session d c)"

definition two_sessions :: "session \<Rightarrow> session \<Rightarrow> cluster" where
  "two_sessions s s' =
     \<lparr> committed = counted_db, sessions = [0 \<mapsto> s, 1 \<mapsto> s'], ends = [] \<rparr>"

lemma schema_counted [simp]: "schema_ok counted_db"
  by (simp add: counted_db_def schema_ok_def bids_ok_def sequences_ok_def outbox_ok_def)

lemma second_driver_simps [simp]:
  "fault second_driver c = None" "driver_times second_driver" "generated_uuid second_driver = 78"
  "encode_time second_driver = encode_time good_driver"
  "scan_time second_driver = scan_time good_driver"
  using driver_times_good by (simp_all add: second_driver_def driver_times_def)

lemma two_sessions_start:
  assumes "serves c" and "serves c'"
    and "verdict (new_session good_driver c) = []" and "verdict (new_session second_driver c') = []"
  shows "reaches serves counted_db
    (two_sessions (after_statements 0 good_driver c) (after_statements 0 second_driver c'))"
proof -
  let ?s = "new_session good_driver c" and ?s' = "new_session second_driver c'"
  let ?w = "put 0 ?s (idle counted_db)"
  have "reaches serves counted_db ?w"
    by (rule later [OF at_rest], rule start) (simp_all add: assms idle_def)
  moreover have "cluster_step serves ?w (put 1 ?s' ?w)"
    by (rule start) (auto simp: assms idle_def new_session_def split: if_splits)
  moreover have "put 1 ?s' ?w = two_sessions ?s ?s'"
    using assms(3,4) by (simp add: put_def idle_def two_sessions_def fun_upd_twist)
  ultimately show ?thesis using later [of serves counted_db ?w "put 1 ?s' ?w"]
    by (simp add: after_statements_def)
qed

lemma waits_two_0:
  "waits (two_sessions s s') 0 \<longleftrightarrow>
     (\<exists>l \<in> set (takes (sn_driver s) (session_view s counted_db) (sn_tx s)).
        \<exists>l' \<in> set (sn_locks s'). conflicts l l')"
  by (auto simp: waits_def in_the_way_def two_sessions_def)

lemma waits_two_1:
  "waits (two_sessions s s') (Suc 0) \<longleftrightarrow>
     (\<exists>l \<in> set (takes (sn_driver s') (session_view s' counted_db) (sn_tx s')).
        \<exists>l' \<in> set (sn_locks s). conflicts l l')"
  by (auto simp: waits_def in_the_way_def two_sessions_def)

lemma two_sessions_0:
  assumes "reaches serves counted_db (two_sessions (after_statements n d c) s')"
    and "\<not> ended (sn_tx (after_statements n d c))"
    and "\<not> waits (two_sessions (after_statements n d c) s') 0"
    and "verdict (after_statements (Suc n) d c) = []"
  shows "reaches serves counted_db (two_sessions (after_statements (Suc n) d c) s')"
proof -
  let ?s = "after_statements n d c"
  have "session_step 0 (two_sessions ?s s') (put 0 (advance counted_db ?s) (two_sessions ?s s'))"
    using assms(2,3) statement [of "two_sessions ?s s'" 0 ?s] by (simp add: two_sessions_def)
  moreover have "put 0 (advance counted_db ?s) (two_sessions ?s s') =
      two_sessions (after_statements (Suc n) d c) s'"
    using assms(4) by (auto simp: put_def two_sessions_def after_statements_def fun_eq_iff)
  ultimately show ?thesis using assms(1) later move by metis
qed

lemma two_sessions_1:
  assumes "reaches serves counted_db (two_sessions s (after_statements n d c))"
    and "\<not> ended (sn_tx (after_statements n d c))"
    and "\<not> waits (two_sessions s (after_statements n d c)) 1"
    and "verdict (after_statements (Suc n) d c) = []"
  shows "reaches serves counted_db (two_sessions s (after_statements (Suc n) d c))"
proof -
  let ?s = "after_statements n d c"
  have "session_step 1 (two_sessions s ?s) (put 1 (advance counted_db ?s) (two_sessions s ?s))"
    using assms(2,3) statement [of "two_sessions s ?s" 1 ?s] by (simp add: two_sessions_def)
  moreover have "put 1 (advance counted_db ?s) (two_sessions s ?s) =
      two_sessions s (after_statements (Suc n) d c)"
    using assms(4) by (simp add: put_def two_sessions_def after_statements_def)
  ultimately show ?thesis using assms(1) later move by metis
qed

lemma after_statements_Suc:
  "after_statements (Suc n) d c = advance counted_db (after_statements n d c)"
  by (simp add: after_statements_def)

lemma session_advance:
  assumes "s = \<lparr> sn_driver = d, sn_call = c, sn_tx = p, sn_writes = ws, sn_locks = ls \<rparr>"
  shows "advance db s = \<lparr> sn_driver = d, sn_call = c, sn_tx = snd (tx_step d (view ws db) p),
    sn_writes = ws @ fst (tx_step d (view ws db) p), sn_locks = ls @ takes d (view ws db) p \<rparr>"
  using assms by (simp add: advance_def session_view_def Let_def case_prod_beta)

lemma counted_db_simps [simp]:
  "auctions counted_db = [7 \<mapsto> open_auction]" "auction_sequences counted_db = [7 \<mapsto> 0]"
  "find_bid counted_db a k = None"
  by (simp_all add: counted_db_def)

lemma row_lock_statements:
  "after_statements 0 good_driver (Row_lock first_bid) =
     \<lparr> sn_driver = good_driver, sn_call = Row_lock first_bid, sn_tx = row_lock_tx first_bid,
       sn_writes = [], sn_locks = [] \<rparr>"
  "after_statements 1 good_driver (Row_lock first_bid) =
     \<lparr> sn_driver = good_driver, sn_call = Row_lock first_bid, sn_tx = row_lock_body first_bid,
       sn_writes = [], sn_locks = [] \<rparr>"
  "after_statements 2 good_driver (Row_lock first_bid) =
     \<lparr> sn_driver = good_driver, sn_call = Row_lock first_bid, sn_tx = row_lock_number first_bid,
       sn_writes = [], sn_locks = [] \<rparr>"
  "\<exists>k. after_statements 3 good_driver (Row_lock first_bid) =
     \<lparr> sn_driver = good_driver, sn_call = Row_lock first_bid,
       sn_tx = InsertBid (bid_row_of first_bid 1) k,
       sn_writes = [], sn_locks = [(CounterRow 7, ForUpdate)] \<rparr>"
proof -
  let ?a = "\<lambda>n. after_statements n good_driver (Row_lock first_bid)"
  show 0: "?a 0 = \<lparr> sn_driver = good_driver, sn_call = Row_lock first_bid,
      sn_tx = row_lock_tx first_bid, sn_writes = [], sn_locks = [] \<rparr>"
    by (simp add: after_statements_def new_session_def)
  show 1: "?a 1 = \<lparr> sn_driver = good_driver, sn_call = Row_lock first_bid,
      sn_tx = row_lock_body first_bid, sn_writes = [], sn_locks = [] \<rparr>"
    unfolding One_nat_def after_statements_Suc session_advance [OF 0]
    by (simp add: row_lock_tx_def or_stop_def takes_def)
  show 2: "?a 2 = \<lparr> sn_driver = good_driver, sn_call = Row_lock first_bid,
      sn_tx = row_lock_number first_bid, sn_writes = [], sn_locks = [] \<rparr>"
    unfolding numeral_2_eq_2 after_statements_Suc session_advance [OF 1 [unfolded One_nat_def after_statements_Suc]]
    by (simp add: row_lock_body_def or_stop_def takes_def sql_ensure_sequence_def ensure_writes_def)
  show "\<exists>k. ?a 3 = \<lparr> sn_driver = good_driver, sn_call = Row_lock first_bid,
      sn_tx = InsertBid (bid_row_of first_bid 1) k, sn_writes = [],
      sn_locks = [(CounterRow 7, ForUpdate)] \<rparr>"
    unfolding numeral_3_eq_3 after_statements_Suc
      session_advance [OF 2 [unfolded numeral_2_eq_2 after_statements_Suc]]
    by (simp add: row_lock_number_def or_stop_def takes_def sql_lock_sequence_def)
qed

definition second_call :: append_call where
  "second_call = Snipe second_bid 5000000"

definition second_session :: "append_result tx \<Rightarrow> row_lock list \<Rightarrow> session" where
  "second_session p ls =
     \<lparr> sn_driver = second_driver, sn_call = second_call, sn_tx = p, sn_writes = [],
       sn_locks = ls \<rparr>"

lemma second_bid_simps [simp]: "bp_AuctionID second_bid = 7" "bp_IdempotencyKey second_bid = 4"
  by (simp_all add: second_bid_def)

lemma after_second:
  assumes "after_statements n second_driver second_call = second_session p ls"
    and "fst (tx_step second_driver counted_db p) = []"
  shows "after_statements (Suc n) second_driver second_call =
    second_session (snd (tx_step second_driver counted_db p))
      (ls @ takes second_driver counted_db p)"
  unfolding after_statements_Suc session_advance [OF assms(1) [unfolded second_session_def]]
  using assms(2) by (simp add: second_session_def)

lemma scan_open [simp]: "scan_time good_driver (effective_close_time open_auction) = Some 1000000000000"
  by (simp add: open_auction_def)

lemma snipe_statements:
  "after_statements 0 second_driver second_call =
     second_session (Begin (or_stop ''begin anti-snipe transaction''
       (\<lambda>_. anti_snipe_body second_driver second_bid 5000000))) []"
  "after_statements 1 second_driver second_call =
     second_session (anti_snipe_body second_driver second_bid 5000000) []"
  "\<exists>k. after_statements 2 second_driver second_call =
     second_session (SelectSequence CallCheckExisting 7 4 k) [(AuctionRow 7, ForUpdate)]"
  "after_statements 3 second_driver second_call =
     second_session (anti_snipe_number second_driver second_bid 5000000 1000000000000 0)
       [(AuctionRow 7, ForUpdate)]"
  "\<exists>k. after_statements 4 second_driver second_call =
     second_session (LockSequence 7 k) [(AuctionRow 7, ForUpdate)]"
proof -
  let ?a = "\<lambda>n. after_statements n second_driver second_call"
  let ?l = "[(AuctionRow 7, ForUpdate)]"
  show 0: "?a 0 = second_session (Begin (or_stop ''begin anti-snipe transaction''
      (\<lambda>_. anti_snipe_body second_driver second_bid 5000000))) []"
    by (simp add: after_statements_def new_session_def second_session_def second_call_def
        anti_snipe_tx_def IsZero_def zero_time_def)
  show 1: "?a 1 = second_session (anti_snipe_body second_driver second_bid 5000000) []"
    using after_second [OF 0] by (simp add: or_stop_def takes_def)
  let ?k2 = "\<lambda>r. case r of
      Inr n \<Rightarrow> Commit ''commit crash-recovery duplicate observation''
        (sniped n False False 1000000000000 0)
    | Inl err \<Rightarrow>
        if \<not> errors_is err ErrNoRows then
          Stop (ErrWrap ''check existing bid before crash recovery'' err)
        else if \<not> Before 5000000 1000000000000 then Stop ErrBidAtOrAfterClose
        else anti_snipe_number second_driver second_bid 5000000 1000000000000 0"
  have 2: "?a (Suc 1) = second_session (SelectSequence CallCheckExisting 7 4 ?k2) ?l"
    using after_second [OF 1]
    by (simp add: anti_snipe_body_def or_stop_def takes_def sql_lock_auction_def open_auction_def)
  then show "\<exists>k. ?a 2 = second_session (SelectSequence CallCheckExisting 7 4 k) ?l"
    by (simp add: numeral_2_eq_2) blast
  have 3: "?a (Suc (Suc 1)) = second_session
      (anti_snipe_number second_driver second_bid 5000000 1000000000000 0) ?l"
    using after_second [OF 2] by (simp add: takes_def sql_select_sequence_def Before_def)
  then show "?a 3 = second_session
      (anti_snipe_number second_driver second_bid 5000000 1000000000000 0) ?l"
    by (simp add: numeral_3_eq_3)
  show "\<exists>k. ?a 4 = second_session (LockSequence 7 k) ?l"
    using after_second [OF 3]
    by (simp add: eval_nat_numeral anti_snipe_number_def or_stop_def takes_def
        sql_ensure_sequence_def ensure_writes_def) blast
qed

text \<open>
  The row-lock call has locked the counter, the anti-snipe call the auction: each needs next what
  the other holds.
\<close>

lemma deadlock_reached:
  "reaches (\<lambda>_. True) counted_db
     (two_sessions (after_statements 3 good_driver (Row_lock first_bid))
       (after_statements 4 second_driver second_call))"
proof -
  let ?r = "\<lambda>n. after_statements n good_driver (Row_lock first_bid)"
  let ?s = "\<lambda>n. after_statements n second_driver second_call"
  let ?R = "\<lambda>m n. reaches (\<lambda>_. True) counted_db (two_sessions (?r m) (?s n))"
  obtain k3 where r3: "?r 3 = \<lparr> sn_driver = good_driver, sn_call = Row_lock first_bid,
      sn_tx = InsertBid (bid_row_of first_bid 1) k3, sn_writes = [],
      sn_locks = [(CounterRow 7, ForUpdate)] \<rparr>"
    using row_lock_statements(4) by blast
  obtain k2 where s2: "?s 2 = second_session (SelectSequence CallCheckExisting 7 4 k2) [(AuctionRow 7, ForUpdate)]"
    using snipe_statements(3) by blast
  obtain k4 where s4: "?s 4 = second_session (LockSequence 7 k4) [(AuctionRow 7, ForUpdate)]"
    using snipe_statements(5) by blast
  note r = row_lock_statements(1-3) r3 and s = snipe_statements(1,2,4) s2 s4
  have "?R 0 0"
    using r(1) s(1) by (intro two_sessions_start)
      (simp_all add: after_statements_def verdict_def row_lock_tx_def second_session_def)
  then have "?R 1 0"
    using two_sessions_0 [of _ 0 good_driver "Row_lock first_bid" "?s 0"] r s
    by (simp add: waits_two_0 second_session_def verdict_def row_lock_tx_def row_lock_body_def)
  then have "?R 2 0"
    using two_sessions_0 [of _ 1 good_driver "Row_lock first_bid" "?s 0"] r s
    by (simp add: waits_two_0 second_session_def verdict_def row_lock_body_def row_lock_number_def
        numeral_2_eq_2)
  then have "?R 3 0"
    using two_sessions_0 [of _ 2 good_driver "Row_lock first_bid" "?s 0"] r s
    by (simp add: waits_two_0 second_session_def verdict_def row_lock_number_def
        numeral_2_eq_2 numeral_3_eq_3)
  then have "?R 3 1"
    using two_sessions_1 [of _ "?r 3" 0 second_driver second_call] r s
    by (simp add: waits_two_1 second_session_def verdict_def anti_snipe_body_def takes_def)
  then have "?R 3 2"
    using two_sessions_1 [of _ "?r 3" 1 second_driver second_call] r s
    by (simp add: waits_two_1 second_session_def verdict_def anti_snipe_body_def takes_def
        conflicts_def session_view_def numeral_2_eq_2)
  then have "?R 3 3"
    using two_sessions_1 [of _ "?r 3" 2 second_driver second_call] r s
    by (simp add: waits_two_1 second_session_def verdict_def anti_snipe_number_def takes_def
        numeral_2_eq_2 numeral_3_eq_3)
  then show "?R 3 4"
    using two_sessions_1 [of _ "?r 3" 3 second_driver second_call] r s
    by (simp add: waits_two_1 second_session_def verdict_def anti_snipe_number_def takes_def
        session_view_def eval_nat_numeral)
qed

lemma deadlock_waits:
  "\<exists>w. reaches (\<lambda>_. True) counted_db w \<and> in_the_way w 0 1 \<and> in_the_way w 1 0 \<and>
     (\<forall>i w'. \<not> session_step i w w')"
proof -
  let ?w = "two_sessions (after_statements 3 good_driver (Row_lock first_bid))
    (after_statements 4 second_driver second_call)"
  obtain k3 where r: "after_statements 3 good_driver (Row_lock first_bid) =
      \<lparr> sn_driver = good_driver, sn_call = Row_lock first_bid,
        sn_tx = InsertBid (bid_row_of first_bid 1) k3, sn_writes = [],
        sn_locks = [(CounterRow 7, ForUpdate)] \<rparr>"
    using row_lock_statements(4) by blast
  obtain k4 where s: "after_statements 4 second_driver second_call =
      second_session (LockSequence 7 k4) [(AuctionRow 7, ForUpdate)]"
    using snipe_statements(5) by blast
  have ways: "in_the_way ?w 0 1" "in_the_way ?w 1 0"
    by (auto simp: in_the_way_def two_sessions_def r s second_session_def takes_def
        session_view_def conflicts_def)
  then have "waits ?w 0" "waits ?w 1" by (auto simp: waits_def)
  then have "\<not> session_step i ?w w'" for i w'
  proof (intro notI)
    assume "session_step i ?w w'"
    then show False
    proof cases
      case (statement t)
      then have "i = 0 \<or> i = 1" by (auto simp: two_sessions_def split: if_splits)
      with statement \<open>waits ?w 0\<close> \<open>waits ?w 1\<close> show False by auto
    next
      case (commit t msg x db' res)
      then show False
        by (auto simp: two_sessions_def r s second_session_def split: if_splits)
    next
      case (rollback t err)
      then show False
        by (auto simp: two_sessions_def r s second_session_def split: if_splits)
    qed
  qed
  with ways deadlock_reached show ?thesis by blast
qed

text \<open>The first of two bids has locked the auction, the second waits for it.\<close>

lemma two_bids_waiting:
  "\<exists>w. reaches production counted_db w \<and> waits w 0 \<and> sessions w 0 \<noteq> None"
proof -
  let ?c = "Snipe first_bid 5000000"
  let ?s = "\<lambda>n. after_statements n second_driver second_call"
  let ?f = "\<lambda>n. after_statements n good_driver ?c"
  have f0: "?f 0 = \<lparr> sn_driver = good_driver, sn_call = ?c,
      sn_tx = Begin (or_stop ''begin anti-snipe transaction''
        (\<lambda>_. anti_snipe_body good_driver first_bid 5000000)), sn_writes = [], sn_locks = [] \<rparr>"
    by (simp add: after_statements_def new_session_def anti_snipe_tx_def IsZero_def zero_time_def)
  have f1: "?f 1 = \<lparr> sn_driver = good_driver, sn_call = ?c,
      sn_tx = anti_snipe_body good_driver first_bid 5000000, sn_writes = [], sn_locks = [] \<rparr>"
    unfolding One_nat_def after_statements_Suc session_advance [OF f0]
    by (simp add: or_stop_def takes_def)
  obtain k2 where s2: "?s 2 = second_session (SelectSequence CallCheckExisting 7 4 k2) [(AuctionRow 7, ForUpdate)]"
    using snipe_statements(3) by blast
  note s = snipe_statements(1,2) s2
  let ?R = "\<lambda>m n. reaches production counted_db (two_sessions (?f m) (?s n))"
  have "production ?c" and "production second_call"
    by (auto simp: production_def second_call_def)
  then have "?R 0 0"
    using f0 s(1) by (intro two_sessions_start)
      (simp_all add: after_statements_def verdict_def second_session_def)
  then have "?R 1 0"
    using two_sessions_0 [of _ 0 good_driver ?c "?s 0"] f0 f1 s(1)
    by (simp add: waits_two_0 second_session_def verdict_def anti_snipe_body_def)
  then have "?R 1 1"
    using two_sessions_1 [of _ "?f 1" 0 second_driver second_call] f1 s
    by (simp add: waits_two_1 second_session_def verdict_def anti_snipe_body_def takes_def)
  then have "?R 1 2"
    using two_sessions_1 [of _ "?f 1" 1 second_driver second_call] f1 s
    by (simp add: waits_two_1 second_session_def verdict_def anti_snipe_body_def takes_def
        numeral_2_eq_2)
  moreover have "waits (two_sessions (?f 1) (?s 2)) 0"
    by (simp add: waits_two_0 f1 [unfolded One_nat_def] s2 second_session_def anti_snipe_body_def
        takes_def session_view_def conflicts_def)
  ultimately show ?thesis by (intro exI) (auto simp: two_sessions_def)
qed

section \<open>Properties\<close>

text \<open>
  C2. Serializability: whatever the interleaving of the statements of any number of appending
  transactions, with openings of auctions and marks of the relay in between, the committed
  database is what the ended calls give one after another, in the order in which they ended,
  each as one atomic call with exactly the result it returned, as long as each auction is
  served by one of the two appending transactions. READ COMMITTED and the row locks are enough.
\<close>

theorem interleaving_is_serial:
  assumes "reaches serves db w" and "schema_ok db"
    and "one_path serves"
  shows "replay (ends w) db = Some (committed w)"
  using reaches_inv [OF assms] unfolding cluster_inv_def by (rule conjunct1)

lemma interleaving_is_serial_witness:
  "\<exists>w. reaches production counted_db w \<and> replay (ends w) counted_db = Some (committed w) \<and>
     sessions w 0 \<noteq> None"
proof -
  obtain w where w: "reaches production counted_db w" "sessions w 0 \<noteq> None"
    using two_bids_waiting by blast
  have "replay (ends w) counted_db = Some (committed w)"
    using w(1) schema_counted one_path_production by (rule interleaving_is_serial)
  with w show ?thesis by blast
qed

text \<open>
  C7. The interleaved production path refines the histories of the other theories: every state of
  the committed database is reached by openings, bids and publications as single steps, so what
  holds of all histories (gap-free numbers, deadlines, extensions, one event for each bid) holds
  under concurrency.
\<close>

theorem interleaving_refines_histories:
  assumes "reaches production db w" and "schema_ok db"
  shows "system_steps db (committed w)"
  using assms by (rule production_history)

lemma interleaving_refines_histories_witness:
  "\<exists>w. reaches production counted_db w \<and> system_steps counted_db (committed w) \<and> waits w 0"
  using two_bids_waiting interleaving_refines_histories [OF _ schema_counted] by blast

text \<open>
  C14. No deadlock on the production path: a session that waits for a row waits for a session
  that can go on, needs at most ten steps to its end without any other session moving, and
  leaves the waiting session free to run.
\<close>

theorem production_waits_end:
  assumes "reaches production db w" and "schema_ok db" and "waits w i"
  shows "\<exists>j n w'. in_the_way w j i \<and> n \<le> 10 \<and> (session_step j ^^ n) w w' \<and>
    sessions w' j = None \<and> sessions w' i = sessions w i \<and> \<not> waits w' i"
  using reaches_inv [OF assms(1,2) one_path_production] reaches_locks_inv [OF assms(1,2)] assms(3)
  by (rule blocker_ends)

lemma production_waits_end_witness:
  "\<exists>w j n w'. reaches production counted_db w \<and> waits w 0 \<and> in_the_way w j 0 \<and> n \<le> 10 \<and>
     (session_step j ^^ n) w w' \<and> \<not> waits w' 0"
  using two_bids_waiting production_waits_end [OF _ schema_counted] by meson

text \<open>
  C24. The two appending transactions do not keep one lock order: with both in use on one auction
  the row-lock append can hold the counter and wait, in the foreign key check of its INSERT, for
  the auction that the anti-snipe append holds, which waits for the counter. Neither can move,
  so the server has to abort one of them.
\<close>

theorem mixed_appends_deadlock:
  "\<exists>w. reaches (\<lambda>_. True) counted_db w \<and> in_the_way w 0 1 \<and> in_the_way w 1 0 \<and>
     (\<forall>i w'. \<not> session_step i w w')"
  by (rule deadlock_waits)

end
