(* ===== verification/Relay_Sessions.thy ===== *)
theory Relay_Sessions
  imports Ledger_Schema
begin

text \<open>
  Several relay processes on one outbox: \<open>PublishNext\<close> of
  \<^verbatim>\<open>src/internal/store/postgres/outbox.go\<close> cut at its calls of the server, of the publisher and of
  the hook, run interleaved with the other relays and with the appends of the engine. SELECT ...
  FOR UPDATE SKIP LOCKED passes over the rows the other relays hold; a row is held to the end of
  the transaction. The theory shows that no event is held twice, that the UPDATE always finds its
  row, and accounts exactly for the publications; and that with two relays the events of one
  auction can reach the subscribers in the wrong order.
\<close>

section \<open>One call, step by step\<close>

datatype pub_phase =
    Beginning
  | Selecting
  | Publishing OutboxEvent
  | Hooking OutboxEvent
  | Marking OutboxEvent
  | Committing OutboxEvent
  | Returned "bool result"

fun publish_step ::
  "pg_driver \<Rightarrow> (uuid \<Rightarrow> bool) \<Rightarrow> 'e publish_fn option \<Rightarrow> 'e publish_fn option \<Rightarrow>
     pub_phase \<times> database \<times> 'e \<Rightarrow> pub_phase \<times> database \<times> 'e"
where
  "publish_step d locked p h (Beginning, db, e) =
     (case p of
        None \<Rightarrow> (Returned (Inl (ErrNew ''outbox publish function is required'')), db, e)
      | Some _ \<Rightarrow>
          (case on_server d CallBegin (Inr ()) of
             Inl err \<Rightarrow> (Returned (Inl (ErrWrap ''begin outbox relay transaction'' err)), db, e)
           | Inr _ \<Rightarrow> (Selecting, db, e)))"
| "publish_step d locked p h (Selecting, db, e) =
     (case on_server d CallSelectOutbox (sql_select_outbox d locked db) of
        Inr ev \<Rightarrow> (Publishing ev, db, e)
      | Inl err \<Rightarrow>
          (Returned (if errors_is err ErrNoRows then Inr False
             else Inl (ErrWrap ''lock next unpublished outbox event'' err)), db, e))"
| "publish_step d locked p h (Publishing ev, db, e) =
     (case p of
        None \<Rightarrow> (Returned (Inl (Panicked ''call of a nil function'')), db, e)
      | Some publish \<Rightarrow>
          (case publish ev e of
             (Some err, e1) \<Rightarrow> (Returned (Inl (ErrWrap ''publish outbox event'' err)), db, e1)
           | (None, e1) \<Rightarrow> (Hooking ev, db, e1)))"
| "publish_step d locked p h (Hooking ev, db, e) =
     (case (case h of None \<Rightarrow> (None, e) | Some g \<Rightarrow> g ev e) of
        (Some err, e1) \<Rightarrow>
          (Returned (Inl (ErrWrap ''after publishing outbox event'' err)), db, e1)
      | (None, e1) \<Rightarrow> (Marking ev, db, e1))"
| "publish_step d locked p h (Marking ev, db, e) =
     (case on_server d CallMarkPublished (sql_mark_published d db (oe_ID ev)) of
        Inl err \<Rightarrow> (Returned (Inl (ErrWrap ''mark outbox event published'' err)), db, e)
      | Inr (work, rows) \<Rightarrow>
          if rows \<noteq> 1 then
            (Returned (Inl (ErrNew ''mark outbox event published: expected one row'')), db, e)
          else (Committing ev, db, e))"
| "publish_step d locked p h (Committing ev, db, e) =
     (case commit_tx d db (mark_published d (oe_ID ev) db) ''commit outbox publication'' True of
        (db', r) \<Rightarrow> (Returned r, db', e))"
| "publish_step d locked p h (Returned r, db, e) = (Returned r, db, e)"

text \<open>Six steps with nothing in between are the call.\<close>

lemma publish_steps_alone:
  "(publish_step d locked p h ^^ 6) (Beginning, db, e) =
     map_prod Returned (\<lambda>x. x) (PublishNext d locked p h db e)"
  by (auto simp: eval_nat_numeral PublishNext_def publish_and_mark_def mark_and_commit_def
      on_server_def sql_mark_published_def mark_published_def
      split: sum.split option.split prod.split)

section \<open>Several relays\<close>

text \<open>The event whose row a call holds, and the event it has handed to the publisher.\<close>

fun holds :: "pub_phase \<Rightarrow> uuid option" where
  "holds (Publishing ev) = Some (oe_ID ev)"
| "holds (Hooking ev) = Some (oe_ID ev)"
| "holds (Marking ev) = Some (oe_ID ev)"
| "holds (Committing ev) = Some (oe_ID ev)"
| "holds _ = None"

fun delivered :: "pub_phase \<Rightarrow> uuid option" where
  "delivered (Hooking ev) = Some (oe_ID ev)"
| "delivered (Marking ev) = Some (oe_ID ev)"
| "delivered (Committing ev) = Some (oe_ID ev)"
| "delivered _ = None"

record 'e relay_session =
  rs_driver :: pg_driver
  rs_publish :: "'e publish_fn option"
  rs_hook :: "'e publish_fn option"
  rs_phase :: pub_phase

text \<open>
  \<open>fl_sent\<close> records each publication that the publisher took, \<open>fl_lost\<close> those whose call ended
  without the mark being committed.
\<close>

record 'e fleet =
  fl_db :: database
  fl_env :: 'e
  fl_relays :: "nat \<Rightarrow> 'e relay_session option"
  fl_sent :: "uuid list"
  fl_lost :: "uuid list"

definition others_hold :: "'e fleet \<Rightarrow> nat \<Rightarrow> uuid \<Rightarrow> bool" where
  "others_hold f i ev \<longleftrightarrow>
     (\<exists>j s. j \<noteq> i \<and> fl_relays f j = Some s \<and> holds (rs_phase s) = Some ev)"

fun sent_by :: "pub_phase \<Rightarrow> pub_phase \<Rightarrow> uuid list" where
  "sent_by (Publishing ev) (Hooking ev') = [oe_ID ev]"
| "sent_by _ _ = []"

fun lost_by :: "pg_driver \<Rightarrow> pub_phase \<Rightarrow> pub_phase \<Rightarrow> uuid list" where
  "lost_by d (Hooking ev) (Returned r) = [oe_ID ev]"
| "lost_by d (Marking ev) (Returned r) = [oe_ID ev]"
| "lost_by d (Committing ev) (Returned r) =
     (if fault d CallCommit = None \<or> commit_applied d then [] else [oe_ID ev])"
| "lost_by d _ _ = []"

inductive fleet_step :: "'e fleet \<Rightarrow> 'e fleet \<Rightarrow> bool" where
  begin_call: "fl_relays f i = None \<Longrightarrow>
    fleet_step f (f\<lparr>fl_relays := (fl_relays f)(i \<mapsto>
      \<lparr> rs_driver = d, rs_publish = p, rs_hook = h, rs_phase = Beginning \<rparr>)\<rparr>)"
| move_call: "fl_relays f i = Some s \<Longrightarrow>
    publish_step (rs_driver s) (others_hold f i) (rs_publish s) (rs_hook s)
      (rs_phase s, fl_db f, fl_env f) = (ph, db', e') \<Longrightarrow>
    fleet_step f (f\<lparr>fl_db := db', fl_env := e',
      fl_relays := (fl_relays f)(i \<mapsto> s\<lparr>rs_phase := ph\<rparr>),
      fl_sent := fl_sent f @ sent_by (rs_phase s) ph,
      fl_lost := fl_lost f @ lost_by (rs_driver s) (rs_phase s) ph\<rparr>)"
| end_call: "fl_relays f i = Some s \<Longrightarrow>
    fleet_step f (f\<lparr>fl_relays := (fl_relays f)(i := None),
      fl_lost := fl_lost f @ (case delivered (rs_phase s) of None \<Rightarrow> [] | Some ev \<Rightarrow> [ev])\<rparr>)"
| engine_append: "AppendBidIdempotentWithAntiSnipe d bid t (fl_db f) = (db', r) \<Longrightarrow>
    fleet_step f (f\<lparr>fl_db := db'\<rparr>)"

definition fleet_at :: "database \<Rightarrow> 'e \<Rightarrow> 'e fleet" where
  "fleet_at db e =
     \<lparr> fl_db = db, fl_env = e, fl_relays = (\<lambda>_. None), fl_sent = [], fl_lost = [] \<rparr>"

inductive fleet_reaches :: "'e fleet \<Rightarrow> 'e fleet \<Rightarrow> bool" for f0 where
  fleet_start: "fleet_reaches f0 f0"
| fleet_later: "fleet_reaches f0 f \<Longrightarrow> fleet_step f f' \<Longrightarrow> fleet_reaches f0 f'"

section \<open>The invariant\<close>

definition published :: "database \<Rightarrow> uuid \<Rightarrow> bool" where
  "published db ev \<longleftrightarrow> (\<exists>q \<in> set (outbox db). ob_id q = ev \<and> ob_published_at q \<noteq> None)"

definition waiting :: "database \<Rightarrow> uuid \<Rightarrow> bool" where
  "waiting db ev \<longleftrightarrow> (\<exists>q \<in> set (outbox db). ob_id q = ev \<and> ob_published_at q = None)"

definition in_flight :: "'e fleet \<Rightarrow> uuid \<Rightarrow> bool" where
  "in_flight f ev \<longleftrightarrow> (\<exists>i s. fl_relays f i = Some s \<and> delivered (rs_phase s) = Some ev)"

definition one_row_missed :: "pub_phase \<Rightarrow> bool" where
  "one_row_missed ph \<longleftrightarrow>
     ph = Returned (Inl (ErrNew ''mark outbox event published: expected one row''))"

definition holders_apart :: "'e fleet \<Rightarrow> bool" where
  "holders_apart f \<longleftrightarrow>
     (\<forall>i j s s'. i \<noteq> j \<longrightarrow> fl_relays f i = Some s \<longrightarrow> fl_relays f j = Some s' \<longrightarrow>
        holds (rs_phase s) \<noteq> None \<longrightarrow> holds (rs_phase s) \<noteq> holds (rs_phase s'))"

definition fleet_rows :: "'e fleet \<Rightarrow> bool" where
  "fleet_rows f \<longleftrightarrow>
     (\<forall>i s ev. fl_relays f i = Some s \<longrightarrow> holds (rs_phase s) = Some ev \<longrightarrow> waiting (fl_db f) ev) \<and>
     (\<forall>i s. fl_relays f i = Some s \<longrightarrow> \<not> one_row_missed (rs_phase s))"

definition balanced :: "database \<Rightarrow> 'e fleet \<Rightarrow> uuid \<Rightarrow> bool" where
  "balanced db f ev \<longleftrightarrow>
     count_list (fl_sent f) ev + of_bool (published db ev) =
     count_list (fl_lost f) ev + of_bool (published (fl_db f) ev) + of_bool (in_flight f ev)"

definition fleet_inv :: "database \<Rightarrow> 'e fleet \<Rightarrow> bool" where
  "fleet_inv db f \<longleftrightarrow>
     distinct (map ob_id (outbox (fl_db f))) \<and> holders_apart f \<and> fleet_rows f \<and>
     (\<forall>ev. balanced db f ev)"

section \<open>Rows\<close>

lemma marked_published [simp]:
  "ob_published_at (marked d i q) =
     (if ob_id q = i \<and> ob_published_at q = None then Some (clock_timestamp d) else ob_published_at q)"
  by (simp add: marked_def to_mark_def)

lemma published_mark:
  "published (mark_published d i db) ev \<longleftrightarrow> published db ev \<or> ev = i \<and> waiting db ev"
  by (auto simp: published_def waiting_def mark_published_def split: if_splits)

lemma waiting_mark: "waiting (mark_published d i db) ev \<longleftrightarrow> waiting db ev \<and> ev \<noteq> i"
  by (auto simp: waiting_def mark_published_def split: if_splits)

lemma ids_mark [simp]: "map ob_id (outbox (mark_published d i db)) = map ob_id (outbox db)"
  by (simp add: mark_published_def)

lemma not_waiting_and_published:
  "distinct (map ob_id (outbox db)) \<Longrightarrow> waiting db ev \<Longrightarrow> \<not> published db ev"
  by (auto simp: waiting_def published_def distinct_map inj_on_def)

lemma one_row_to_mark:
  assumes "distinct (map ob_id (outbox db))" and "waiting db i"
  shows "length (filter (to_mark i) (outbox db)) = 1"
proof -
  from assms(2) obtain q where q: "q \<in> set (outbox db)" "to_mark i q" "ob_id q = i"
    by (auto simp: waiting_def to_mark_def)
  have "\<forall>q' \<in> set (outbox db). ob_id q' = i \<longrightarrow> q' = q"
    using assms(1) q by (auto simp: distinct_map inj_on_def)
  then have "filter (to_mark i) (outbox db) = filter (\<lambda>q'. q' = q) (outbox db)"
    using q(2) by (intro filter_cong) (auto simp: to_mark_def)
  moreover have "distinct (outbox db)" using assms(1) by (simp add: distinct_map)
  ultimately show ?thesis
    using q(1) by (simp add: distinct_length_filter Collect_conv_if)
qed

lemma append_rows:
  assumes "AppendBidIdempotentWithAntiSnipe d bid t db = (db', r)"
    and "distinct (map ob_id (outbox db))"
  shows "published db' ev = published db ev \<and> (waiting db ev \<longrightarrow> waiting db' ev) \<and>
    distinct (map ob_id (outbox db'))"
proof -
  consider "outbox db' = outbox db"
    | q where "outbox db' = outbox db @ [q]" "ob_published_at q = None"
        "\<forall>q' \<in> set (outbox db). ob_id q' \<noteq> ob_id q"
    using anti_snipe_outcome [OF assms(1)]
    by (auto simp: anti_snipe_commits_def accepted_event_def split: option.splits)
  then show ?thesis
    using assms(2) by cases (auto simp: published_def waiting_def)
qed

section \<open>The invariant holds\<close>

definition other_flight :: "'e fleet \<Rightarrow> nat \<Rightarrow> uuid \<Rightarrow> bool" where
  "other_flight f i ev \<longleftrightarrow>
     (\<exists>j s. j \<noteq> i \<and> fl_relays f j = Some s \<and> delivered (rs_phase s) = Some ev)"

lemma in_flight_split:
  "fl_relays f i = Some s \<Longrightarrow>
     in_flight f ev \<longleftrightarrow> delivered (rs_phase s) = Some ev \<or> other_flight f i ev"
  unfolding in_flight_def other_flight_def by (metis option.inject)

lemma in_flight_free: "fl_relays f i = None \<Longrightarrow> in_flight f ev \<longleftrightarrow> other_flight f i ev"
  unfolding in_flight_def other_flight_def by (metis option.distinct(1))

lemma in_flight_update [simp]:
  "in_flight (f\<lparr>fl_db := db', fl_env := e', fl_relays := (fl_relays f)(i \<mapsto> s'), fl_sent := a,
      fl_lost := b\<rparr>) ev \<longleftrightarrow> delivered (rs_phase s') = Some ev \<or> other_flight f i ev"
  "in_flight (f\<lparr>fl_relays := (fl_relays f)(i \<mapsto> s')\<rparr>) ev \<longleftrightarrow>
     delivered (rs_phase s') = Some ev \<or> other_flight f i ev"
  "in_flight (f\<lparr>fl_relays := (fl_relays f)(i := None), fl_lost := b\<rparr>) ev \<longleftrightarrow> other_flight f i ev"
  "in_flight (f\<lparr>fl_db := db'\<rparr>) ev = in_flight f ev"
  by (auto simp: in_flight_def other_flight_def)

lemma delivered_holds: "delivered ph = Some ev \<Longrightarrow> holds ph = Some ev"
  by (cases ph) simp_all

lemma holder_alone:
  assumes "holders_apart f" and "fl_relays f i = Some s" and "holds (rs_phase s) = Some ev"
  shows "\<not> other_flight f i ev"
  using assms delivered_holds unfolding holders_apart_def other_flight_def
  by (metis option.distinct(1))

lemma publish_step_holds:
  assumes "publish_step d (others_hold f i) p h (ph, db, e) = (ph', db', e')"
    and "holds ph' = Some ev"
  shows "holds ph = Some ev \<or> ph = Selecting \<and> \<not> others_hold f i ev \<and> waiting db ev"
proof (cases ph)
  case Selecting
  with assms obtain x where "sql_select_outbox d (others_hold f i) db = Inr x"
    and ph': "ph' = Publishing x"
    by (auto simp: on_server_def split: sum.splits option.splits)
  then obtain q where "next_unpublished (others_hold f i) db = Some q" and "event_of_row d q = Some x"
    by (auto simp: sql)
  with next_unpublished_Some(1) [of "others_hold f i" db q] assms(2) ph' Selecting show ?thesis
    by (auto simp: event_of_row_ID unpublished_def waiting_def)
qed (use assms in \<open>auto split: option.splits prod.splits sum.splits if_splits\<close>)

lemma publish_step_db:
  assumes "publish_step d locked p h (ph, db, e) = (ph', db', e')"
  shows "db' = db \<or> (\<exists>ev. ph = Committing ev \<and> db' = mark_published d (oe_ID ev) db)"
  using assms
  by (cases ph) (auto simp: commit_tx_def split: option.splits prod.splits sum.splits if_splits)

lemma publish_step_one_row:
  assumes "publish_step d locked p h (ph, db, e) = (ph', db', e')" and "\<not> one_row_missed ph"
    and "\<And>ev. ph = Marking ev \<Longrightarrow> length (filter (to_mark (oe_ID ev)) (outbox db)) = 1"
  shows "\<not> one_row_missed ph'"
  using assms
  by (cases ph) (auto simp: one_row_missed_def sql_mark_Inr commit_tx_def on_server_def
      split: option.splits prod.splits sum.splits if_splits)

text \<open>The books of one step.\<close>

lemma publish_step_books:
  assumes "publish_step d locked p h (ph, db, e) = (ph', db', e')"
    and "distinct (map ob_id (outbox db))" and "\<And>ev. holds ph = Some ev \<Longrightarrow> waiting db ev"
  shows "count_list (sent_by ph ph') ev + of_bool (published db ev) + of_bool (delivered ph = Some ev) =
    count_list (lost_by d ph ph') ev + of_bool (published db' ev) + of_bool (delivered ph' = Some ev)"
  using assms not_waiting_and_published [OF assms(2)]
  by (cases ph) (auto simp: commit_tx_def published_mark
      split: option.splits prod.splits sum.splits if_splits)

lemma fleet_inv_step:
  assumes "fleet_step f f'" and inv: "fleet_inv db f"
  shows "fleet_inv db f'"
  using assms(1)
proof cases
  case (begin_call i d p h)
  with inv show ?thesis
    by (auto simp: fleet_inv_def holders_apart_def fleet_rows_def balanced_def in_flight_free
        one_row_missed_def split: if_splits)
next
  case (move_call i s ph db' e')
  have d: "distinct (map ob_id (outbox (fl_db f)))" and apart: "holders_apart f"
    and rows: "fleet_rows f" and bal: "\<And>ev. balanced db f ev"
    using inv by (simp_all add: fleet_inv_def)
  have hold: "\<And>ev. holds (rs_phase s) = Some ev \<Longrightarrow> waiting (fl_db f) ev"
    using rows move_call(2) by (simp add: fleet_rows_def)
  note db' = publish_step_db [OF move_call(3)]
  have d': "distinct (map ob_id (outbox db'))" using d db' by auto
  have apart': "holds ph \<noteq> holds (rs_phase s')"
    if "j \<noteq> i" and "fl_relays f j = Some s'" and "holds ph \<noteq> None" for j s'
  proof -
    from that(3) obtain ev where ev: "holds ph = Some ev" by blast
    from publish_step_holds [OF move_call(3) ev] show ?thesis
    proof
      assume "holds (rs_phase s) = Some ev"
      with apart that(1,2) move_call(2) ev show ?thesis
        unfolding holders_apart_def by (metis option.distinct(1))
    next
      assume "rs_phase s = Selecting \<and> \<not> others_hold f i ev \<and> waiting (fl_db f) ev"
      with that(1,2) ev show ?thesis unfolding others_hold_def by metis
    qed
  qed
  have keep: "waiting db' ev" if "j \<noteq> i" and "fl_relays f j = Some s'"
    and "holds (rs_phase s') = Some ev" for j s' ev
  proof -
    have "waiting (fl_db f) ev" using rows that by (simp add: fleet_rows_def)
    moreover have "holds (rs_phase s) \<noteq> Some ev"
      using apart that move_call(2) unfolding holders_apart_def by (metis option.distinct(1))
    ultimately show ?thesis using db' by (auto simp: waiting_mark)
  qed
  have own: "waiting db' ev" if "holds ph = Some ev" for ev
  proof -
    have "rs_phase s \<noteq> Committing x" for x
      using that move_call(3) by (auto split: prod.splits)
    with db' have "db' = fl_db f" by auto
    with publish_step_holds [OF move_call(3) that] hold show ?thesis by auto
  qed
  have "\<not> one_row_missed ph"
    using rows move_call(2) one_row_to_mark [OF d hold]
    by (intro publish_step_one_row [OF move_call(3)]) (auto simp: fleet_rows_def)
  with own keep rows have "fleet_rows f'"
    unfolding move_call(1) by (auto simp: fleet_rows_def split: if_splits)
  moreover have "holders_apart f'"
    using apart apart' unfolding move_call(1) holders_apart_def
    by (auto split: if_splits) metis+
  moreover have "balanced db f' ev" for ev
  proof -
    have "other_flight f i ev \<Longrightarrow> delivered (rs_phase s) \<noteq> Some ev \<and> delivered ph \<noteq> Some ev"
      using holder_alone [OF apart move_call(2)] delivered_holds apart'
      unfolding other_flight_def by (metis option.distinct(1))
    with publish_step_books [OF move_call(3) d hold, of ev] bal [of ev] show ?thesis
      unfolding move_call(1)
      by (cases "other_flight f i ev") (auto simp: balanced_def in_flight_split [OF move_call(2)])
  qed
  ultimately show ?thesis using d' unfolding move_call(1) by (simp add: fleet_inv_def)
next
  case (end_call i s)
  have "balanced db f' ev" for ev
    using inv holder_alone [of f i s ev] delivered_holds [of "rs_phase s" ev] end_call
    by (auto simp: fleet_inv_def balanced_def in_flight_split split: option.split)
  with inv end_call show ?thesis
    by (auto simp: fleet_inv_def holders_apart_def fleet_rows_def split: if_splits)
next
  case (engine_append d bid t db' r)
  have "distinct (map ob_id (outbox (fl_db f)))" using inv by (simp add: fleet_inv_def)
  from append_rows [OF engine_append(2) this] inv engine_append(1) show ?thesis
    by (auto simp: fleet_inv_def holders_apart_def fleet_rows_def balanced_def)
qed

lemma fleet_inv_start: "distinct (map ob_id (outbox db)) \<Longrightarrow> fleet_inv db (fleet_at db e)"
  by (simp add: fleet_inv_def fleet_at_def holders_apart_def fleet_rows_def balanced_def
      in_flight_def)

lemma fleet_reaches_inv:
  assumes "fleet_reaches (fleet_at db e) f" and "schema_ok db"
  shows "fleet_inv db f"
  using assms(1)
proof induction
  case fleet_start
  with assms(2) show ?case by (auto simp: schema_ok_def outbox_ok_def intro: fleet_inv_start)
next
  case (fleet_later f f')
  from fleet_later.hyps(2) fleet_later.IH show ?case by (rule fleet_inv_step)
qed

section \<open>Two relays on two events of one auction\<close>

definition event_row :: "uuid \<Rightarrow> int64 \<Rightarrow> int \<Rightarrow> outbox_row" where
  "event_row i n created =
     \<lparr> ob_id = i, ob_event_type = ''BidAccepted'', ob_aggregate_type = ''auction'',
       ob_aggregate_id = 7, ob_aggregate_sequence = n, ob_payload = [], ob_created_at = created,
       ob_published_at = None, ob_publish_attempts = 0 \<rparr>"

definition two_events_db :: database where
  "two_events_db = one_auction_db\<lparr>outbox := [event_row 77 1 500, event_row 78 2 600]\<rparr>"

definition event_read :: "outbox_row \<Rightarrow> OutboxEvent" where
  "event_read q = the (event_of_row good_driver q)"

definition sample_session :: "pub_phase \<Rightarrow> OutboxEvent list relay_session" where
  "sample_session ph =
     \<lparr> rs_driver = good_driver, rs_publish = Some record_event, rs_hook = None, rs_phase = ph \<rparr>"

definition two_relays ::
  "pub_phase option \<Rightarrow> pub_phase option \<Rightarrow> OutboxEvent list \<Rightarrow> uuid list \<Rightarrow> OutboxEvent list fleet"
where
  "two_relays ph ph' log sent =
     \<lparr> fl_db = two_events_db, fl_env = log,
       fl_relays = (\<lambda>i. if i = 0 then map_option sample_session ph
         else if i = 1 then map_option sample_session ph' else None),
       fl_sent = sent, fl_lost = [] \<rparr>"

lemma schema_two_events [simp]: "schema_ok two_events_db"
  by (simp add: schema_ok_def bids_ok_def sequences_ok_def outbox_ok_def two_events_db_def
      event_row_def outbox_event_key_def btrim_def)

lemma event_read_ID: "oe_ID (event_read (event_row i n c)) = i"
  by (simp add: event_read_def event_of_row_def event_row_def)

lemma select_two_events:
  "\<not> locked 77 \<Longrightarrow> sql_select_outbox good_driver locked two_events_db =
     Inr (event_read (event_row 77 1 500))"
  "locked 77 \<Longrightarrow> \<not> locked 78 \<Longrightarrow> sql_select_outbox good_driver locked two_events_db =
     Inr (event_read (event_row 78 2 600))"
  by (simp_all add: sql_select_outbox_def next_unpublished_def unpublished_def two_events_db_def
      event_row_def event_of_row_def event_read_def order_key_def less_event_key_def
      less_eq_event_key_def arg_min_list.simps)

lemma two_relays_simps [simp]:
  "fl_db (two_relays ph ph' log sent) = two_events_db"
  "fl_env (two_relays ph ph' log sent) = log"
  "fl_relays (two_relays ph ph' log sent) 0 = map_option sample_session ph"
  "fl_relays (two_relays ph ph' log sent) (Suc 0) = map_option sample_session ph'"
  "fl_sent (two_relays ph ph' log sent) = sent"
  by (simp_all add: two_relays_def)

lemma two_relays_begin:
  "fleet_step (two_relays None ph' log sent) (two_relays (Some Beginning) ph' log sent)"
  "fleet_step (two_relays ph None log sent) (two_relays ph (Some Beginning) log sent)"
proof -
  have "two_relays (Some Beginning) ph' log sent = (two_relays None ph' log sent)
      \<lparr>fl_relays := (fl_relays (two_relays None ph' log sent))(0 \<mapsto> sample_session Beginning)\<rparr>"
    by (auto simp: two_relays_def)
  then show "fleet_step (two_relays None ph' log sent) (two_relays (Some Beginning) ph' log sent)"
    using begin_call [of "two_relays None ph' log sent" 0 good_driver "Some record_event" None]
    by (simp add: sample_session_def)
  have "two_relays ph (Some Beginning) log sent = (two_relays ph None log sent)
      \<lparr>fl_relays := (fl_relays (two_relays ph None log sent))(Suc 0 \<mapsto> sample_session Beginning)\<rparr>"
    by (auto simp: two_relays_def)
  then show "fleet_step (two_relays ph None log sent) (two_relays ph (Some Beginning) log sent)"
    using begin_call [of "two_relays ph None log sent" "Suc 0" good_driver "Some record_event" None]
    by (simp add: sample_session_def)
qed

lemma two_relays_move:
  assumes "publish_step good_driver (others_hold (two_relays ph ph' log sent) i) (Some record_event) None
      (x, two_events_db, log) = (y, two_events_db, log')"
    and "lost_by good_driver x y = []"
  shows "i = 0 \<Longrightarrow> ph = Some x \<Longrightarrow> fleet_step (two_relays ph ph' log sent)
      (two_relays (Some y) ph' log' (sent @ sent_by x y))"
    and "i = 1 \<Longrightarrow> ph' = Some x \<Longrightarrow> fleet_step (two_relays ph ph' log sent)
      (two_relays ph (Some y) log' (sent @ sent_by x y))"
proof -
  assume i: "i = 0" and ph: "ph = Some x"
  have "two_relays (Some y) ph' log' (sent @ sent_by x y) =
    (two_relays ph ph' log sent)\<lparr>fl_db := two_events_db, fl_env := log',
      fl_relays := (fl_relays (two_relays ph ph' log sent))(0 \<mapsto> (sample_session x)\<lparr>rs_phase := y\<rparr>),
      fl_sent := sent @ sent_by x y, fl_lost := [] @ []\<rparr>"
    by (auto simp: two_relays_def sample_session_def)
  then show "fleet_step (two_relays ph ph' log sent)
      (two_relays (Some y) ph' log' (sent @ sent_by x y))"
    using move_call [of "two_relays ph ph' log sent" 0 "sample_session x" y two_events_db log']
      assms i ph
    by (simp add: sample_session_def) (simp add: two_relays_def)
next
  assume i: "i = 1" and ph: "ph' = Some x"
  have "two_relays ph (Some y) log' (sent @ sent_by x y) =
    (two_relays ph ph' log sent)\<lparr>fl_db := two_events_db, fl_env := log',
      fl_relays := (fl_relays (two_relays ph ph' log sent))(Suc 0 \<mapsto> (sample_session x)\<lparr>rs_phase := y\<rparr>),
      fl_sent := sent @ sent_by x y, fl_lost := [] @ []\<rparr>"
    by (auto simp: two_relays_def sample_session_def)
  then show "fleet_step (two_relays ph ph' log sent)
      (two_relays ph (Some y) log' (sent @ sent_by x y))"
    using move_call [of "two_relays ph ph' log sent" "Suc 0" "sample_session x" y two_events_db log']
      assms i ph
    by (simp add: sample_session_def) (simp add: two_relays_def)
qed

lemma others_hold_two:
  "others_hold (two_relays ph ph' log sent) 0 ev \<longleftrightarrow> Option.bind ph' holds = Some ev"
  "others_hold (two_relays ph ph' log sent) 1 ev \<longleftrightarrow> Option.bind ph holds = Some ev"
  by (cases ph; cases ph'; auto simp: others_hold_def two_relays_def sample_session_def)+

lemma two_relays_selects:
  "fleet_step (two_relays (Some Beginning) ph' log sent) (two_relays (Some Selecting) ph' log sent)"
  "fleet_step (two_relays ph (Some Beginning) log sent) (two_relays ph (Some Selecting) log sent)"
proof -
  have "fleet_step (two_relays (Some Beginning) ph' log sent)
      (two_relays (Some Selecting) ph' log (sent @ sent_by Beginning Selecting))"
    by (rule two_relays_move(1)) (simp_all add: on_server_def)
  then show "fleet_step (two_relays (Some Beginning) ph' log sent)
      (two_relays (Some Selecting) ph' log sent)" by simp
  have "fleet_step (two_relays ph (Some Beginning) log sent)
      (two_relays ph (Some Selecting) log (sent @ sent_by Beginning Selecting))"
    by (rule two_relays_move(2)) (simp_all add: on_server_def)
  then show "fleet_step (two_relays ph (Some Beginning) log sent)
      (two_relays ph (Some Selecting) log sent)" by simp
qed

lemma two_relays_reach:
  "fleet_reaches (fleet_at two_events_db []) (two_relays
     (Some (Publishing (event_read (event_row 77 1 500))))
     (Some (Hooking (event_read (event_row 78 2 600))))
     [event_read (event_row 78 2 600)] [78])"
proof -
  let ?e1 = "event_read (event_row 77 1 500)" and ?e2 = "event_read (event_row 78 2 600)"
  let ?f0 = "fleet_at two_events_db [] :: OutboxEvent list fleet"
  have "?f0 = two_relays None None [] []" by (auto simp: two_relays_def fleet_at_def)
  then have "fleet_reaches ?f0 (two_relays None None [] [])"
    by (metis fleet_start)
  then have "fleet_reaches ?f0 (two_relays (Some Beginning) None [] [])"
    using two_relays_begin(1) by (rule fleet_later)
  then have "fleet_reaches ?f0 (two_relays (Some Selecting) None [] [])"
    using two_relays_selects(1) by (rule fleet_later)
  then have "fleet_reaches ?f0 (two_relays (Some Selecting) (Some Beginning) [] [])"
    using two_relays_begin(2) by (rule fleet_later)
  then have r: "fleet_reaches ?f0 (two_relays (Some Selecting) (Some Selecting) [] [])"
    using two_relays_selects(2) by (rule fleet_later)
  let ?w1 = "two_relays (Some Selecting) (Some Selecting) [] []"
  have "\<not> others_hold ?w1 0 77" by (simp add: others_hold_two)
  from select_two_events(1) [of "others_hold ?w1 0", OF this] have "fleet_step ?w1
      (two_relays (Some (Publishing ?e1)) (Some Selecting) [] ([] @ sent_by Selecting (Publishing ?e1)))"
    by (intro two_relays_move(1)) simp_all
  from fleet_later [OF r this]
  have r: "fleet_reaches ?f0 (two_relays (Some (Publishing ?e1)) (Some Selecting) [] [])"
    by simp
  let ?w2 = "two_relays (Some (Publishing ?e1)) (Some Selecting) [] []"
  have "others_hold ?w2 1 77" and "\<not> others_hold ?w2 1 78"
    unfolding others_hold_two by (simp_all add: event_read_ID)
  from select_two_events(2) [of "others_hold ?w2 1", OF this] have "fleet_step ?w2 (two_relays (Some (Publishing ?e1))
      (Some (Publishing ?e2)) [] ([] @ sent_by Selecting (Publishing ?e2)))"
    by (intro two_relays_move(2)) simp_all
  from fleet_later [OF r this]
  have r: "fleet_reaches ?f0 (two_relays (Some (Publishing ?e1)) (Some (Publishing ?e2)) [] [])"
    by simp
  have "fleet_step (two_relays (Some (Publishing ?e1)) (Some (Publishing ?e2)) [] [])
      (two_relays (Some (Publishing ?e1)) (Some (Hooking ?e2)) [?e2]
        ([] @ sent_by (Publishing ?e2) (Hooking ?e2)))"
    by (rule two_relays_move(2)) (simp_all add: record_event_def)
  from fleet_later [OF r this] show ?thesis by (simp add: event_read_ID)
qed

section \<open>Properties\<close>

text \<open>
  C11. Relays side by side do not get in each other's way: whatever the interleaving, with appends
  of the engine and crashes in between, no two calls hold the same event, the event a call holds
  is still unpublished, and so the UPDATE always affects exactly one row: the error \<open>expected one
  row\<close> does not occur.
\<close>

theorem relays_hold_apart:
  assumes "fleet_reaches (fleet_at db e) f" and "schema_ok db"
    and "fl_relays f i = Some s"
  shows "rs_phase s \<noteq> Returned (Inl (ErrNew ''mark outbox event published: expected one row'')) \<and>
    (holds (rs_phase s) \<noteq> None \<longrightarrow>
       (\<exists>q \<in> set (outbox (fl_db f)). Some (ob_id q) = holds (rs_phase s) \<and> ob_published_at q = None) \<and>
       (\<forall>j s'. j \<noteq> i \<longrightarrow> fl_relays f j = Some s' \<longrightarrow> holds (rs_phase s') \<noteq> holds (rs_phase s)))"
proof (intro conjI impI)
  have apart: "holders_apart f" and rows: "fleet_rows f"
    using fleet_reaches_inv [OF assms(1,2)] by (simp_all add: fleet_inv_def)
  show "rs_phase s \<noteq> Returned (Inl (ErrNew ''mark outbox event published: expected one row''))"
    using rows assms(3) by (simp add: fleet_rows_def one_row_missed_def)
  assume held: "holds (rs_phase s) \<noteq> None"
  with rows assms(3) show "\<exists>q \<in> set (outbox (fl_db f)).
      Some (ob_id q) = holds (rs_phase s) \<and> ob_published_at q = None"
    unfolding fleet_rows_def waiting_def by (metis not_None_eq)
  show "\<forall>j s'. j \<noteq> i \<longrightarrow> fl_relays f j = Some s' \<longrightarrow> holds (rs_phase s') \<noteq> holds (rs_phase s)"
    using apart assms(3) held unfolding holders_apart_def by metis
qed

lemma relays_hold_apart_witness:
  "\<exists>f s. fleet_reaches (fleet_at two_events_db ([] :: OutboxEvent list)) f \<and>
     fl_relays f 1 = Some s \<and> holds (rs_phase s) = Some 78 \<and>
     (\<forall>j s'. j \<noteq> 1 \<longrightarrow> fl_relays f j = Some s' \<longrightarrow> holds (rs_phase s') \<noteq> Some 78)"
  using relays_hold_apart [OF two_relays_reach schema_two_events, of 1] two_relays_reach
  by (intro exI conjI) (auto simp: two_relays_def sample_session_def event_read_ID)

text \<open>
  C9. The books of the outbox balance in every reachable state: for each event, the publications
  that the publisher took are the marks that were committed, plus those in flight, plus those
  whose call ended without its mark. So a marked event was published, and an event is published
  twice only where a call was lost in between.
\<close>

theorem relay_publications_balance:
  assumes "fleet_reaches (fleet_at db e) f" and "schema_ok db"
  shows "count_list (fl_sent f) ev + of_bool (published db ev) =
    count_list (fl_lost f) ev + of_bool (published (fl_db f) ev) + of_bool (in_flight f ev)"
  using fleet_reaches_inv [OF assms] by (simp add: fleet_inv_def balanced_def)

lemma relay_publications_balance_witness:
  "\<exists>f. fleet_reaches (fleet_at two_events_db ([] :: OutboxEvent list)) f \<and>
     count_list (fl_sent f) 78 + of_bool (published two_events_db 78) =
       count_list (fl_lost f) 78 + of_bool (published (fl_db f) 78) + of_bool (in_flight f 78) \<and>
     count_list (fl_sent f) 78 = 1"
proof -
  let ?f = "two_relays (Some (Publishing (event_read (event_row 77 1 500))))
    (Some (Hooking (event_read (event_row 78 2 600)))) [event_read (event_row 78 2 600)] [78]"
  have "count_list (fl_sent ?f) 78 = 1" by simp
  with two_relays_reach relay_publications_balance [OF two_relays_reach schema_two_events, of 78]
  show ?thesis by blast
qed

text \<open>
  C25. Two relays do not keep the order of an auction: SKIP LOCKED lets the second relay take and
  publish the event of bid 2 while the first still holds the event of bid 1 unpublished.
\<close>

theorem two_relays_reorder:
  "\<exists>f q q'. fleet_reaches (fleet_at two_events_db ([] :: OutboxEvent list)) f \<and>
     q \<in> set (outbox two_events_db) \<and> q' \<in> set (outbox two_events_db) \<and>
     ob_aggregate_id q = ob_aggregate_id q' \<and>
     ob_aggregate_sequence q <s ob_aggregate_sequence q' \<and> ob_created_at q < ob_created_at q' \<and>
     ob_id q \<notin> set (fl_sent f) \<and> ob_id q' \<in> set (fl_sent f)"
  using two_relays_reach
  by (intro exI [of _ "two_relays (Some (Publishing (event_read (event_row 77 1 500))))
        (Some (Hooking (event_read (event_row 78 2 600)))) [event_read (event_row 78 2 600)] [78]"]
      exI [of _ "event_row 77 1 500"] exI [of _ "event_row 78 2 600"])
    (simp add: two_events_db_def, simp add: event_row_def word_sless_alt)

end
