(* ===== verification/Privileges.thy ===== *)
theory Privileges
  imports Relay_Sessions "HOL-Library.Sublist"
begin

text \<open>
  The roles of \<^verbatim>\<open>src/migrations\<close>: what \<open>bidlane_engine\<close> and \<open>bidlane_outbox_relay\<close> may do to
  the tables after the GRANT and REVOKE statements of all six files, and the trigger
  \<open>bids_immutable\<close> in a catalog that DDL can change. The theory shows that every statement of the
  stores is permitted to the role its process assumes, and what the grants and the trigger make of
  a command the program does not send: any INSERT, UPDATE, DELETE or TRUNCATE of the four tables,
  on the columns the model has, and DDL.
\<close>

section \<open>Roles and privileges\<close>

datatype table_name = T_auctions | T_bids | T_auction_sequences | T_outbox

datatype db_role = Owner | Public | Bidlane_engine | Bidlane_outbox_relay

datatype privilege =
    May_select
  | May_insert
  | May_update
  | May_update_column string
  | May_delete
  | May_truncate

datatype acl_stmt =
    Grant "privilege list" table_name db_role
  | Revoke "privilege list" table_name db_role
  | Revoke_all table_name db_role

text \<open>The statements of the migrations about tables, in their order.\<close>

definition ledger_acl :: "acl_stmt list" where
  "ledger_acl =
     [Revoke_all T_auctions Public,
      Revoke_all T_bids Public,
      Grant [May_select, May_insert] T_auctions Bidlane_engine,
      Grant [May_select, May_insert] T_bids Bidlane_engine,
      Revoke [May_update, May_delete, May_truncate] T_bids Bidlane_engine]"

definition sequence_acl :: "acl_stmt list" where
  "sequence_acl =
     [Revoke_all T_auction_sequences Public,
      Grant [May_select, May_insert, May_update] T_auction_sequences Bidlane_engine]"

definition anti_snipe_acl :: "acl_stmt list" where
  "anti_snipe_acl =
     [Grant [May_update_column ''effective_close_time'', May_update_column ''extension_count'']
        T_auctions Bidlane_engine]"

definition outbox_acl :: "acl_stmt list" where
  "outbox_acl =
     [Revoke_all T_outbox Public,
      Grant [May_insert] T_outbox Bidlane_engine,
      Grant [May_select] T_outbox Bidlane_outbox_relay,
      Grant [May_update_column ''published_at'', May_update_column ''publish_attempts'']
        T_outbox Bidlane_outbox_relay]"

type_synonym acl = "db_role \<Rightarrow> table_name \<Rightarrow> privilege list"

text \<open>REVOKE UPDATE on a table also takes back UPDATE on its columns.\<close>

fun revokes :: "privilege list \<Rightarrow> privilege \<Rightarrow> bool" where
  "revokes ps (May_update_column c) \<longleftrightarrow>
     May_update_column c \<in> set ps \<or> May_update \<in> set ps"
| "revokes ps p \<longleftrightarrow> p \<in> set ps"

fun run_acl :: "acl_stmt \<Rightarrow> acl \<Rightarrow> acl" where
  "run_acl (Grant ps t r) m = m(r := (m r)(t := m r t @ ps))"
| "run_acl (Revoke ps t r) m = m(r := (m r)(t := filter (\<lambda>p. \<not> revokes ps p) (m r t)))"
| "run_acl (Revoke_all t r) m = m(r := (m r)(t := []))"

definition granted :: acl where
  "granted = fold run_acl (ledger_acl @ sequence_acl @ anti_snipe_acl @ outbox_acl) (\<lambda>_ _. [])"

text \<open>A role has what is granted to it and to PUBLIC; the owner of the tables has everything.\<close>

definition holds_privilege :: "db_role \<Rightarrow> table_name \<Rightarrow> privilege \<Rightarrow> bool" where
  "holds_privilege r t p \<longleftrightarrow> r = Owner \<or> p \<in> set (granted r t) \<or> p \<in> set (granted Public t)"

fun may :: "db_role \<Rightarrow> table_name \<Rightarrow> privilege \<Rightarrow> bool" where
  "may r t (May_update_column c) \<longleftrightarrow>
     holds_privilege r t (May_update_column c) \<or> holds_privilege r t May_update"
| "may r t p \<longleftrightarrow> holds_privilege r t p"

text \<open>What a statement asks of its role: \<open>FOR UPDATE\<close> asks for UPDATE on some column.\<close>

datatype request = Privilege privilege | Row_lock_on "string list"

fun allowed :: "db_role \<Rightarrow> table_name \<times> request \<Rightarrow> bool" where
  "allowed r (t, Privilege p) = may r t p"
| "allowed r (t, Row_lock_on cs) = list_ex (\<lambda>c. may r t (May_update_column c)) cs"

section \<open>The statements of the stores\<close>

definition auction_columns :: "string list" where
  "auction_columns =
     [''id'', ''created_at'', ''effective_close_time'', ''extension_window'',
      ''extension_interval'', ''max_extensions'', ''extension_count'']"

definition sequence_columns :: "string list" where
  "sequence_columns = [''auction_id'', ''last_seq'']"

definition outbox_columns :: "string list" where
  "outbox_columns =
     [''id'', ''event_type'', ''aggregate_type'', ''aggregate_id'', ''aggregate_sequence'',
      ''payload'', ''created_at'', ''published_at'', ''publish_attempts'']"

definition outbox_requests :: "(table_name \<times> request) list" where
  "outbox_requests = [(T_outbox, Privilege May_insert)]"

text \<open>\<open>ON CONFLICT\<close> on columns, \<open>WHERE\<close> and \<open>RETURNING\<close> read the table.\<close>

fun requests :: "'r tx \<Rightarrow> (table_name \<times> request) list" where
  "requests (LockAuction a k) =
     [(T_auctions, Privilege May_select), (T_auctions, Row_lock_on auction_columns)]"
| "requests (SelectSequence c a i k) = [(T_bids, Privilege May_select)]"
| "requests (EnsureSequence a k) =
     [(T_auction_sequences, Privilege May_insert), (T_auction_sequences, Privilege May_select)]"
| "requests (LockSequence a k) =
     [(T_auction_sequences, Privilege May_select),
      (T_auction_sequences, Row_lock_on sequence_columns)]"
| "requests (InsertBid r k) =
     [(T_bids, Privilege May_insert), (T_bids, Privilege May_select)]"
| "requests (AdvanceSequence a new old k) =
     [(T_auction_sequences, Privilege (May_update_column ''last_seq'')),
      (T_auction_sequences, Privilege May_select)]"
| "requests (ExtendAuction a t k) =
     [(T_auctions, Privilege (May_update_column ''effective_close_time'')),
      (T_auctions, Privilege (May_update_column ''extension_count'')),
      (T_auctions, Privilege May_select)]"
| "requests (InsertOutbox ty agg a n payload k) = outbox_requests"
| "requests _ = []"

text \<open>Every statement the transaction can come to is permitted.\<close>

primrec permitted :: "'r tx \<Rightarrow> db_role \<Rightarrow> bool" where
  "permitted (Begin k) r = (\<forall>x. permitted (k x) r)"
| "permitted (LockAuction a k) r =
     (list_all (allowed r) (requests (LockAuction a k)) \<and> (\<forall>x. permitted (k x) r))"
| "permitted (SelectSequence c a i k) r =
     (list_all (allowed r) (requests (SelectSequence c a i k)) \<and> (\<forall>x. permitted (k x) r))"
| "permitted (EnsureSequence a k) r =
     (list_all (allowed r) (requests (EnsureSequence a k)) \<and> (\<forall>x. permitted (k x) r))"
| "permitted (LockSequence a k) r =
     (list_all (allowed r) (requests (LockSequence a k)) \<and> (\<forall>x. permitted (k x) r))"
| "permitted (InsertBid row k) r =
     (list_all (allowed r) (requests (InsertBid row k)) \<and> (\<forall>x. permitted (k x) r))"
| "permitted (AdvanceSequence a new old k) r =
     (list_all (allowed r) (requests (AdvanceSequence a new old k)) \<and> (\<forall>x. permitted (k x) r))"
| "permitted (ExtendAuction a t k) r =
     (list_all (allowed r) (requests (ExtendAuction a t k)) \<and> (\<forall>x. permitted (k x) r))"
| "permitted (InsertOutbox ty agg a n payload k) r =
     (list_all (allowed r) (requests (InsertOutbox ty agg a n payload k)) \<and>
      (\<forall>x. permitted (k x) r))"
| "permitted (Commit msg x) r = True"
| "permitted (Stop err) r = True"

text \<open>The statement a call of \<open>PublishNext\<close> sends in each of its phases.\<close>

fun phase_requests :: "pub_phase \<Rightarrow> (table_name \<times> request) list" where
  "phase_requests Selecting =
     [(T_outbox, Privilege May_select), (T_outbox, Row_lock_on outbox_columns)]"
| "phase_requests (Marking ev) =
     [(T_outbox, Privilege (May_update_column ''published_at'')),
      (T_outbox, Privilege (May_update_column ''publish_attempts'')),
      (T_outbox, Privilege May_select)]"
| "phase_requests _ = []"

section \<open>Any command at all\<close>

text \<open>
  SET clauses; the new value is an expression over the old row. The keys of \<open>auctions\<close> and
  \<open>auction_sequences\<close>, and the time \<open>created_at\<close> the tables of the model do not hold, are not set.
\<close>

datatype auction_set =
    Set_effective_close_time "auction_row \<Rightarrow> timestamptz"
  | Set_extension_window "auction_row \<Rightarrow> int"
  | Set_extension_interval "auction_row \<Rightarrow> int"
  | Set_max_extensions "auction_row \<Rightarrow> int32"
  | Set_extension_count "auction_row \<Rightarrow> int32"

fun auction_column :: "auction_set \<Rightarrow> string" where
  "auction_column (Set_effective_close_time f) = ''effective_close_time''"
| "auction_column (Set_extension_window f) = ''extension_window''"
| "auction_column (Set_extension_interval f) = ''extension_interval''"
| "auction_column (Set_max_extensions f) = ''max_extensions''"
| "auction_column (Set_extension_count f) = ''extension_count''"

fun set_auction :: "auction_row \<Rightarrow> auction_set \<Rightarrow> auction_row \<Rightarrow> auction_row" where
  "set_auction old (Set_effective_close_time f) r = r\<lparr>effective_close_time := f old\<rparr>"
| "set_auction old (Set_extension_window f) r = r\<lparr>extension_window := f old\<rparr>"
| "set_auction old (Set_extension_interval f) r = r\<lparr>extension_interval := f old\<rparr>"
| "set_auction old (Set_max_extensions f) r = r\<lparr>max_extensions := f old\<rparr>"
| "set_auction old (Set_extension_count f) r = r\<lparr>extension_count := f old\<rparr>"

datatype event_set =
    Set_ob_id "outbox_row \<Rightarrow> uuid"
  | Set_event_type "outbox_row \<Rightarrow> string"
  | Set_aggregate_type "outbox_row \<Rightarrow> string"
  | Set_aggregate_id "outbox_row \<Rightarrow> uuid"
  | Set_aggregate_sequence "outbox_row \<Rightarrow> int64"
  | Set_payload "outbox_row \<Rightarrow> json_object"
  | Set_created_at "outbox_row \<Rightarrow> int"
  | Set_published_at "outbox_row \<Rightarrow> int option"
  | Set_publish_attempts "outbox_row \<Rightarrow> int32"

fun event_column :: "event_set \<Rightarrow> string" where
  "event_column (Set_ob_id f) = ''id''"
| "event_column (Set_event_type f) = ''event_type''"
| "event_column (Set_aggregate_type f) = ''aggregate_type''"
| "event_column (Set_aggregate_id f) = ''aggregate_id''"
| "event_column (Set_aggregate_sequence f) = ''aggregate_sequence''"
| "event_column (Set_payload f) = ''payload''"
| "event_column (Set_created_at f) = ''created_at''"
| "event_column (Set_published_at f) = ''published_at''"
| "event_column (Set_publish_attempts f) = ''publish_attempts''"

fun set_event :: "outbox_row \<Rightarrow> event_set \<Rightarrow> outbox_row \<Rightarrow> outbox_row" where
  "set_event old (Set_ob_id f) q = q\<lparr>ob_id := f old\<rparr>"
| "set_event old (Set_event_type f) q = q\<lparr>ob_event_type := f old\<rparr>"
| "set_event old (Set_aggregate_type f) q = q\<lparr>ob_aggregate_type := f old\<rparr>"
| "set_event old (Set_aggregate_id f) q = q\<lparr>ob_aggregate_id := f old\<rparr>"
| "set_event old (Set_aggregate_sequence f) q = q\<lparr>ob_aggregate_sequence := f old\<rparr>"
| "set_event old (Set_payload f) q = q\<lparr>ob_payload := f old\<rparr>"
| "set_event old (Set_created_at f) q = q\<lparr>ob_created_at := f old\<rparr>"
| "set_event old (Set_published_at f) q = q\<lparr>ob_published_at := f old\<rparr>"
| "set_event old (Set_publish_attempts f) q = q\<lparr>ob_publish_attempts := f old\<rparr>"

datatype bid_set =
    Set_row_auction_id "bid_row \<Rightarrow> uuid"
  | Set_sequence_no "bid_row \<Rightarrow> int64"
  | Set_amount "bid_row \<Rightarrow> int"
  | Set_bidder_id "bid_row \<Rightarrow> uuid"
  | Set_idempotency_key "bid_row \<Rightarrow> uuid"
  | Set_stream_entry_id "bid_row \<Rightarrow> string"

fun bid_column :: "bid_set \<Rightarrow> string" where
  "bid_column (Set_row_auction_id f) = ''auction_id''"
| "bid_column (Set_sequence_no f) = ''sequence_no''"
| "bid_column (Set_amount f) = ''amount''"
| "bid_column (Set_bidder_id f) = ''bidder_id''"
| "bid_column (Set_idempotency_key f) = ''idempotency_key''"
| "bid_column (Set_stream_entry_id f) = ''stream_entry_id''"

fun set_bid :: "bid_row \<Rightarrow> bid_set \<Rightarrow> bid_row \<Rightarrow> bid_row" where
  "set_bid old (Set_row_auction_id f) r = r\<lparr>row_auction_id := f old\<rparr>"
| "set_bid old (Set_sequence_no f) r = r\<lparr>row_sequence_no := f old\<rparr>"
| "set_bid old (Set_amount f) r = r\<lparr>row_amount := f old\<rparr>"
| "set_bid old (Set_bidder_id f) r = r\<lparr>row_bidder_id := f old\<rparr>"
| "set_bid old (Set_idempotency_key f) r = r\<lparr>row_idempotency_key := f old\<rparr>"
| "set_bid old (Set_stream_entry_id f) r = r\<lparr>row_stream_entry_id := f old\<rparr>"

datatype dml =
    Insert_auction uuid auction_row
  | Update_auctions "auction_set list" "uuid \<Rightarrow> auction_row \<Rightarrow> bool"
  | Delete_auctions "uuid \<Rightarrow> auction_row \<Rightarrow> bool"
  | Insert_bid_row bid_row
  | Update_bids "bid_set list" "bid_row \<Rightarrow> bool"
  | Delete_bids "bid_row \<Rightarrow> bool"
  | Insert_sequence uuid int64
  | Update_sequences "uuid \<Rightarrow> int64 \<Rightarrow> bool" "int64 \<Rightarrow> int64"
  | Delete_sequences "uuid \<Rightarrow> int64 \<Rightarrow> bool"
  | Insert_event outbox_row
  | Update_events "event_set list" "outbox_row \<Rightarrow> bool"
  | Delete_events "outbox_row \<Rightarrow> bool"
  | Truncate table_name

fun dml_requests :: "dml \<Rightarrow> (table_name \<times> privilege) list" where
  "dml_requests (Insert_auction a r) = [(T_auctions, May_insert)]"
| "dml_requests (Update_auctions ss w) =
     map (\<lambda>s. (T_auctions, May_update_column (auction_column s))) ss"
| "dml_requests (Delete_auctions w) = [(T_auctions, May_delete)]"
| "dml_requests (Insert_bid_row r) = [(T_bids, May_insert)]"
| "dml_requests (Update_bids ss w) =
     map (\<lambda>s. (T_bids, May_update_column (bid_column s))) ss"
| "dml_requests (Delete_bids w) = [(T_bids, May_delete)]"
| "dml_requests (Insert_sequence a n) = [(T_auction_sequences, May_insert)]"
| "dml_requests (Update_sequences w f) =
     [(T_auction_sequences, May_update_column ''last_seq'')]"
| "dml_requests (Delete_sequences w) = [(T_auction_sequences, May_delete)]"
| "dml_requests (Insert_event q) = [(T_outbox, May_insert)]"
| "dml_requests (Update_events ss w) =
     map (\<lambda>s. (T_outbox, May_update_column (event_column s))) ss"
| "dml_requests (Delete_events w) = [(T_outbox, May_delete)]"
| "dml_requests (Truncate t) = [(t, May_truncate)]"

text \<open>
  Row triggers of \<open>bids\<close>, the one table that has any: the event they are fired before, and what
  their function comes to for a row. They are part of the catalog. \<open>bids_immutable\<close> names two
  events and TRUNCATE, which has no rows, is not one of them.
\<close>

datatype row_event = On_insert | On_update | On_delete

type_synonym bid_triggers = "(row_event \<times> unit result) list"

definition reject_bid_mutation :: "unit result" where
  "reject_bid_mutation =
     Inl (ErrDriver ''bids is append-only (I1). Append a compensating event instead.'')"

definition bids_immutable :: bid_triggers where
  "bids_immutable = [(On_update, reject_bid_mutation), (On_delete, reject_bid_mutation)]"

primrec fire :: "row_event \<Rightarrow> bid_triggers \<Rightarrow> unit result" where
  "fire ev [] = Inr ()"
| "fire ev (tr # trs) =
     (case (if fst tr = ev then snd tr else Inr ()) of
        Inl err \<Rightarrow> Inl err
      | Inr _ \<Rightarrow> fire ev trs)"

text \<open>A statement about \<open>bids\<close>: the triggers are fired before each row, an error undoes all.\<close>

definition before_rows ::
  "bid_triggers \<Rightarrow> row_event \<Rightarrow> bid_row list \<Rightarrow> database result \<Rightarrow> database result"
where
  "before_rows trs ev rows result =
     (if rows = [] then result
      else case fire ev trs of Inl err \<Rightarrow> Inl err | Inr _ \<Rightarrow> result)"

fun execute_dml :: "bid_triggers \<Rightarrow> dml \<Rightarrow> database \<Rightarrow> database result" where
  "execute_dml trs (Insert_auction a r) db =
     (if auctions db a \<noteq> None then violates ''auctions_pkey''
      else Inr (db\<lparr>auctions := (auctions db)(a \<mapsto> r)\<rparr>))"
| "execute_dml trs (Update_auctions ss w) db =
     Inr (db\<lparr>auctions := (\<lambda>a. map_option
       (\<lambda>r. if w a r then fold (set_auction r) ss r else r) (auctions db a))\<rparr>)"
| "execute_dml trs (Delete_auctions w) db =
     Inr (db\<lparr>auctions := (\<lambda>a. case auctions db a of
       None \<Rightarrow> None | Some r \<Rightarrow> if w a r then None else Some r)\<rparr>)"
| "execute_dml trs (Insert_bid_row r) db = before_rows trs On_insert [r] (sql_insert_bid db r)"
| "execute_dml trs (Update_bids ss w) db =
     before_rows trs On_update (filter w (bids db))
       (Inr (db\<lparr>bids := map (\<lambda>r. if w r then fold (set_bid r) ss r else r) (bids db)\<rparr>))"
| "execute_dml trs (Delete_bids w) db =
     before_rows trs On_delete (filter w (bids db))
       (Inr (db\<lparr>bids := filter (\<lambda>r. \<not> w r) (bids db)\<rparr>))"
| "execute_dml trs (Insert_sequence a n) db =
     (if auction_sequences db a \<noteq> None then violates ''auction_sequences_pkey''
      else Inr (db\<lparr>auction_sequences := (auction_sequences db)(a \<mapsto> n)\<rparr>))"
| "execute_dml trs (Update_sequences w f) db =
     Inr (db\<lparr>auction_sequences := (\<lambda>a. map_option
       (\<lambda>n. if w a n then f n else n) (auction_sequences db a))\<rparr>)"
| "execute_dml trs (Delete_sequences w) db =
     Inr (db\<lparr>auction_sequences := (\<lambda>a. case auction_sequences db a of
       None \<Rightarrow> None | Some n \<Rightarrow> if w a n then None else Some n)\<rparr>)"
| "execute_dml trs (Insert_event q) db = Inr (db\<lparr>outbox := outbox db @ [q]\<rparr>)"
| "execute_dml trs (Update_events ss w) db =
     Inr (db\<lparr>outbox := map (\<lambda>q. if w q then fold (set_event q) ss q else q) (outbox db)\<rparr>)"
| "execute_dml trs (Delete_events w) db =
     Inr (db\<lparr>outbox := filter (\<lambda>q. \<not> w q) (outbox db)\<rparr>)"
| "execute_dml trs (Truncate T_auctions) db = violates ''a foreign key that references auctions''"
| "execute_dml trs (Truncate T_bids) db = Inr (db\<lparr>bids := []\<rparr>)"
| "execute_dml trs (Truncate T_auction_sequences) db = Inr (db\<lparr>auction_sequences := Map.empty\<rparr>)"
| "execute_dml trs (Truncate T_outbox) db = Inr (db\<lparr>outbox := []\<rparr>)"

text \<open>
  A command of a role. A statement is refused without the privileges, and undone when a trigger
  raises or when its result violates a constraint of the schema (the name of the constraint is
  not kept here); privileges to read, which it may need too, are not asked for. DDL on the tables
  (dropping or disabling a trigger, a constraint, a column) can have any effect on the rows and
  the triggers, and asks for the ownership, which is not a privilege that can be granted.
\<close>

datatype command =
    Dml dml
  | Ddl "database \<times> bid_triggers \<Rightarrow> database \<times> bid_triggers"

fun run_command ::
  "db_role \<Rightarrow> command \<Rightarrow> database \<times> bid_triggers \<Rightarrow> (database \<times> bid_triggers) result"
where
  "run_command r (Dml s) (db, trs) =
     (if \<not> list_all (\<lambda>(t, p). may r t p) (dml_requests s) then
        Inl (ErrDriver ''permission denied'')
      else
        (case execute_dml trs s db of
           Inl err \<Rightarrow> Inl err
         | Inr db' \<Rightarrow> if schema_ok db' then Inr (db', trs) else violates ''a constraint''))"
| "run_command r (Ddl f) st =
     (if r = Owner then Inr (f st) else Inl (ErrDriver ''must be owner of table''))"

section \<open>What was granted\<close>

lemmas acl_defs = granted_def ledger_acl_def sequence_acl_def anti_snipe_acl_def outbox_acl_def

lemma granted_public [simp]: "granted Public t = []"
  by (cases t) (simp_all add: acl_defs)

lemma granted_engine [simp]:
  "granted Bidlane_engine T_auctions =
     [May_select, May_insert, May_update_column ''effective_close_time'',
      May_update_column ''extension_count'']"
  "granted Bidlane_engine T_bids = [May_select, May_insert]"
  "granted Bidlane_engine T_auction_sequences = [May_select, May_insert, May_update]"
  "granted Bidlane_engine T_outbox = [May_insert]"
  by (simp_all add: acl_defs)

lemma granted_relay [simp]:
  "granted Bidlane_outbox_relay T_auctions = []"
  "granted Bidlane_outbox_relay T_bids = []"
  "granted Bidlane_outbox_relay T_auction_sequences = []"
  "granted Bidlane_outbox_relay T_outbox =
     [May_select, May_update_column ''published_at'', May_update_column ''publish_attempts'']"
  by (simp_all add: acl_defs)

lemma run_dml_Inr:
  assumes "run_command r (Dml s) (db, trs) = Inr (db', trs')"
  shows "list_all (\<lambda>(t, p). may r t p) (dml_requests s)" and "execute_dml trs s db = Inr db'"
    and "trs' = trs"
  using assms by (auto split: if_splits sum.splits)

lemma before_rows_Inr: "before_rows trs ev rows x = Inr db' \<Longrightarrow> x = Inr db'"
  by (simp add: before_rows_def split: if_splits sum.splits)

lemma fire_bids_immutable:
  "fire On_update bids_immutable = reject_bid_mutation"
  "fire On_delete bids_immutable = reject_bid_mutation"
  by (simp_all add: bids_immutable_def reject_bid_mutation_def)

lemma before_rows_rejects:
  assumes "before_rows bids_immutable ev (filter w bs) x = Inr db'" and "ev \<noteq> On_insert"
  shows "\<forall>r \<in> set bs. \<not> w r"
  using assms by (cases ev)
    (auto simp: before_rows_def fire_bids_immutable reject_bid_mutation_def filter_empty_conv
      split: if_splits)

lemma insert_bid_bids: "sql_insert_bid db r = Inr db' \<Longrightarrow> db' = db\<lparr>bids := bids db @ [r]\<rparr>"
  by (auto simp: sql_insert_bid_def violates_def split: if_splits sum.splits)

lemma permitted_or_stop: "(\<And>x. permitted (k x) r) \<Longrightarrow> permitted (or_stop msg k q) r"
  by (simp add: or_stop_def split: sum.split)

lemma engine_may_append: "permitted (anti_snipe_tx d bid t) Bidlane_engine"
  unfolding anti_snipe_parts
  by (auto intro!: permitted_or_stop simp: holds_privilege_def auction_columns_def
      sequence_columns_def outbox_requests_def Let_def split: option.split prod.split sum.split)

lemma engine_may_row_lock: "permitted (row_lock_tx bid) Bidlane_engine"
  unfolding row_lock_parts
  by (auto intro!: permitted_or_stop simp: holds_privilege_def sequence_columns_def
      split: option.split)

text \<open>SET clauses on the columns the two roles may update.\<close>

lemma set_marks:
  assumes "\<forall>s \<in> set ss. event_column s \<in> {''published_at'', ''publish_attempts''}"
  shows "\<exists>p n. fold (set_event old) ss q = q\<lparr>ob_published_at := p, ob_publish_attempts := n\<rparr>"
  using assms
proof (induction ss arbitrary: q)
  case Nil
  show ?case by (rule exI [of _ "ob_published_at q"], rule exI [of _ "ob_publish_attempts q"]) simp
next
  case (Cons s ss)
  then obtain p n where "fold (set_event old) ss (set_event old s q) =
      (set_event old s q)\<lparr>ob_published_at := p, ob_publish_attempts := n\<rparr>" by fastforce
  with Cons.prems show ?case by (cases s) auto
qed

lemma set_extension:
  assumes "\<forall>s \<in> set ss. auction_column s \<in> {''effective_close_time'', ''extension_count''}"
  shows "\<exists>c n. fold (set_auction old) ss r = r\<lparr>effective_close_time := c, extension_count := n\<rparr>"
  using assms
proof (induction ss arbitrary: r)
  case Nil
  show ?case by (rule exI [of _ "effective_close_time r"], rule exI [of _ "extension_count r"]) simp
next
  case (Cons s ss)
  then obtain c n where "fold (set_auction old) ss (set_auction old s r) =
      (set_auction old s r)\<lparr>effective_close_time := c, extension_count := n\<rparr>" by fastforce
  with Cons.prems show ?case by (cases s) auto
qed

definition engine_confined :: "database \<Rightarrow> database \<Rightarrow> bool" where
  "engine_confined db db' \<longleftrightarrow>
     prefix (bids db) (bids db') \<and> prefix (outbox db) (outbox db') \<and>
     (\<forall>a row. auctions db a = Some row \<longrightarrow>
       (\<exists>c n. auctions db' a = Some (row\<lparr>effective_close_time := c, extension_count := n\<rparr>)))"

definition relay_confined :: "database \<Rightarrow> database \<Rightarrow> bool" where
  "relay_confined db db' \<longleftrightarrow>
     bids db' = bids db \<and> auctions db' = auctions db \<and>
     auction_sequences db' = auction_sequences db \<and>
     list_all2 (\<lambda>q q'. \<exists>p n. q' = q\<lparr>ob_published_at := p, ob_publish_attempts := n\<rparr>)
       (outbox db) (outbox db')"

lemma immutable_bids:
  assumes "execute_dml bids_immutable s db = Inr db'" and "s \<noteq> Truncate T_bids"
  shows "prefix (bids db) (bids db')"
proof (cases "(bids_immutable, s, db)" rule: execute_dml.cases)
  case (4 trs r db)
  with assms show ?thesis by (auto dest!: before_rows_Inr insert_bid_bids)
next
  case (5 trs ss w db)
  with assms have "before_rows bids_immutable On_update (filter w (bids db))
      (Inr (db\<lparr>bids := map (\<lambda>r. if w r then fold (set_bid r) ss r else r) (bids db)\<rparr>)) = Inr db'" by simp
  from before_rows_Inr [OF this] before_rows_rejects [OF this]
  have "bids db' = bids db" by (auto simp: map_idI)
  with 5 show ?thesis by simp
next
  case (6 trs w db)
  with assms have "before_rows bids_immutable On_delete (filter w (bids db))
      (Inr (db\<lparr>bids := filter (\<lambda>r. \<not> w r) (bids db)\<rparr>)) = Inr db'" by simp
  from before_rows_Inr [OF this] before_rows_rejects [OF this]
  have "bids db' = bids db" by auto
  with 6 show ?thesis by simp
qed (use assms in \<open>auto simp: violates_def split: if_splits\<close>)

lemma auction_untouched: "\<exists>c n. row = row\<lparr>effective_close_time := c, extension_count := n\<rparr>"
  by (rule exI [of _ "effective_close_time row"], rule exI [of _ "extension_count row"]) simp

lemma event_untouched: "\<exists>p n. q = q\<lparr>ob_published_at := p, ob_publish_attempts := n\<rparr>"
  by (rule exI [of _ "ob_published_at q"], rule exI [of _ "ob_publish_attempts q"]) simp

text \<open>What a statement about \<open>bids\<close> leaves when neither role may update a column of it.\<close>

lemma update_bids_unpermitted:
  assumes "list_all (\<lambda>(t, p). may r t p) (dml_requests (Update_bids ss w))"
    and "execute_dml trs (Update_bids ss w) db = Inr db'" and "r = Bidlane_engine \<or> r = Bidlane_outbox_relay"
  shows "db' = db"
proof -
  have "ss = []" using assms(1,3) by (cases ss) (auto simp: holds_privilege_def)
  with assms(2) show ?thesis by (auto dest!: before_rows_Inr cong: if_cong)
qed

lemma engine_confined_refl: "engine_confined db db"
  by (auto simp: engine_confined_def intro: auction_untouched)

lemma relay_confined_refl: "relay_confined db db"
  by (auto simp: relay_confined_def intro!: list.rel_refl event_untouched)

lemma engine_dml:
  assumes "list_all (\<lambda>(t, p). may Bidlane_engine t p) (dml_requests s)"
    and "execute_dml trs s db = Inr db'"
  shows "engine_confined db db'"
proof (cases s)
  case (Update_auctions ss w)
  have "\<exists>c n. fold (set_auction row) ss row =
      row\<lparr>effective_close_time := c, extension_count := n\<rparr>" for row
    using assms(1) Update_auctions
    by (intro set_extension) (auto simp: list_all_iff holds_privilege_def)
  with assms(2) Update_auctions show ?thesis
    by (auto simp: engine_confined_def intro: auction_untouched)
next
  case (Insert_bid_row r)
  with assms(2) have "db' = db\<lparr>bids := bids db @ [r]\<rparr>"
    by (auto dest!: before_rows_Inr insert_bid_bids)
  then show ?thesis by (auto simp: engine_confined_def intro: auction_untouched)
next
  case (Update_bids ss w)
  with assms show ?thesis using update_bids_unpermitted engine_confined_refl by metis
next
  case (Truncate t)
  with assms show ?thesis by (cases t) (simp_all add: holds_privilege_def)
qed (use assms in \<open>auto simp: engine_confined_def holds_privilege_def list_all_iff
      violates_def intro: auction_untouched split: if_splits cong: if_cong\<close>)

lemma relay_dml:
  assumes "list_all (\<lambda>(t, p). may Bidlane_outbox_relay t p) (dml_requests s)"
    and "execute_dml trs s db = Inr db'"
  shows "relay_confined db db'"
proof (cases s)
  case (Update_events ss w)
  have "\<exists>p n. fold (set_event q) ss q = q\<lparr>ob_published_at := p, ob_publish_attempts := n\<rparr>" for q
    using assms(1) Update_events
    by (intro set_marks) (auto simp: list_all_iff holds_privilege_def)
  with assms(2) Update_events show ?thesis
    by (auto simp: relay_confined_def list_all2_map2 intro!: list.rel_refl_strong event_untouched)
next
  case (Update_auctions ss w)
  with assms(1) have "ss = []" by (cases ss) (simp_all add: holds_privilege_def)
  with assms(2) Update_auctions show ?thesis
    by (simp add: relay_confined_def map_option_idI fun_eq_iff list.rel_refl event_untouched)
next
  case (Update_bids ss w)
  with assms show ?thesis using update_bids_unpermitted relay_confined_refl by metis
next
  case (Truncate t)
  with assms show ?thesis by (cases t) (simp_all add: holds_privilege_def)
qed (use assms in \<open>auto simp: relay_confined_def holds_privilege_def list_all_iff
      intro!: list.rel_refl event_untouched split: if_splits\<close>)

section \<open>Properties\<close>

text \<open>
  C23. The program never meets \<open>permission denied\<close>: every statement either appending transaction can
  come to, whatever the replies, is permitted to the role the engine assumes, and every
  statement of \<open>PublishNext\<close> to the role of the relay. The roles are apart: the engine could not
  select or mark an event, and the relay could not begin an append.
\<close>

theorem statements_are_permitted:
  "permitted (anti_snipe_tx d bid t) Bidlane_engine \<and>
   permitted (row_lock_tx bid) Bidlane_engine \<and>
   list_all (allowed Bidlane_outbox_relay) (phase_requests ph) \<and>
   \<not> list_all (allowed Bidlane_engine) (phase_requests Selecting) \<and>
   \<not> list_all (allowed Bidlane_engine) (phase_requests (Marking ev)) \<and>
   \<not> permitted (anti_snipe_body d bid t) Bidlane_outbox_relay"
proof -
  have "list_all (allowed Bidlane_outbox_relay) (phase_requests ph)"
    by (cases ph) (simp_all add: holds_privilege_def outbox_columns_def)
  moreover have "\<not> list_all (allowed Bidlane_engine) (phase_requests Selecting)"
    "\<not> list_all (allowed Bidlane_engine) (phase_requests (Marking ev))"
    by (simp_all add: holds_privilege_def)
  moreover have "\<not> permitted (anti_snipe_body d bid t) Bidlane_outbox_relay"
    by (simp add: anti_snipe_body_def holds_privilege_def)
  ultimately show ?thesis
    by (simp add: engine_may_append engine_may_row_lock)
qed

text \<open>
  C13. The database holds the line for commands the program does not send: whatever succeeds, out of
  INSERT, UPDATE, DELETE and TRUNCATE on the columns the model has, and DDL. Under the engine's
  role the bids and the events that are there stay as they are and keep their order, and of an
  auction only the close time and the count can change, whatever triggers there are; under the
  relay's role nothing changes but the two columns of the publication; neither role touches the
  triggers. For every role, the owner of the tables included, \<open>bids_immutable\<close> leaves two ways to
  lose or change a bid: TRUNCATE, and DDL.
\<close>

theorem roles_confine_every_statement:
  assumes "run_command r s (db, trs) = Inr (db', trs')"
  shows "(r = Bidlane_engine \<longrightarrow> trs' = trs \<and>
      prefix (bids db) (bids db') \<and> prefix (outbox db) (outbox db') \<and>
      (\<forall>a row. auctions db a = Some row \<longrightarrow>
        (\<exists>c n. auctions db' a = Some (row\<lparr>effective_close_time := c, extension_count := n\<rparr>)))) \<and>
    (r = Bidlane_outbox_relay \<longrightarrow> trs' = trs \<and>
      bids db' = bids db \<and> auctions db' = auctions db \<and>
      auction_sequences db' = auction_sequences db \<and>
      list_all2 (\<lambda>q q'. \<exists>p n. q' = q\<lparr>ob_published_at := p, ob_publish_attempts := n\<rparr>)
        (outbox db) (outbox db')) \<and>
    (trs = bids_immutable \<longrightarrow>
      s = Dml (Truncate T_bids) \<or> (\<exists>f. s = Ddl f \<and> r = Owner) \<or>
      trs' = trs \<and> prefix (bids db) (bids db'))"
proof (cases s)
  case (Dml st)
  note ran = run_dml_Inr [OF assms [unfolded Dml]]
  have "prefix (bids db) (bids db')" if "st \<noteq> Truncate T_bids" and "trs = bids_immutable"
    using ran(2) that by (simp add: immutable_bids)
  moreover have "engine_confined db db'" if "r = Bidlane_engine"
    using ran(1,2) that by (simp add: engine_dml)
  moreover have "relay_confined db db'" if "r = Bidlane_outbox_relay"
    using ran(1,2) that by (simp add: relay_dml)
  ultimately show ?thesis
    using ran(3) Dml by (auto simp: engine_confined_def relay_confined_def)
next
  case (Ddl f)
  with assms show ?thesis by (simp split: if_splits)
qed

definition remark :: command where
  "remark = Dml (Update_events [Set_published_at (\<lambda>_. Some 900)] (\<lambda>q. ob_id q = 77))"

lemma remark_runs:
  "\<exists>db'. run_command Bidlane_outbox_relay remark (two_events_db, bids_immutable) =
     Inr (db', bids_immutable)"
  by (simp add: remark_def holds_privilege_def schema_ok_def bids_ok_def
      sequences_ok_def outbox_ok_def two_events_db_def event_row_def outbox_event_key_def btrim_def)

lemma roles_confine_every_statement_witness:
  "\<exists>db'. run_command Bidlane_outbox_relay remark (two_events_db, bids_immutable) =
       Inr (db', bids_immutable) \<and>
     bids db' = bids two_events_db \<and> auctions db' = auctions two_events_db"
proof -
  from remark_runs obtain db' where "run_command Bidlane_outbox_relay remark
      (two_events_db, bids_immutable) = Inr (db', bids_immutable)" ..
  with roles_confine_every_statement [OF this] show ?thesis by blast
qed

text \<open>The trigger at work: the owner's UPDATE of a bid is refused, and goes through without it.\<close>

lemma owner_needs_ddl:
  "run_command Owner (Dml (Update_bids [Set_amount (\<lambda>_. 1)] (\<lambda>_. True)))
     (house_after_first, bids_immutable) =
     Inl (ErrDriver ''bids is append-only (I1). Append a compensating event instead.'')"
  "run_command Owner (Ddl (\<lambda>(db, trs). (db, []))) (house_after_first, bids_immutable) =
     Inr (house_after_first, [])"
  by (simp_all add: holds_privilege_def before_rows_def fire_bids_immutable reject_bid_mutation_def
      house_after_first_def appended_def)

end
