(* ===== verification/Process_Exactly.thy ===== *)
theory Process_Exactly
  imports Crash_Recovery
begin

text \<open>
  \<open>ProcessExactly\<close> of \<^verbatim>\<open>src/internal/engine/ledger_consumer.go\<close>: the loop that reads in batches of
  what is still missing, with its 64-bit counter. The theory shows that its success means
  exactly the given number of entries, no one more read.
\<close>

section \<open>What Redis promises\<close>

text \<open>\<open>COUNT n\<close> of XREADGROUP: at most \<open>n\<close> messages.\<close>

definition reads_at_most :: "'e redis_client \<Rightarrow> bool" where
  "reads_at_most c \<longleftrightarrow>
     (\<forall>g n ks cnt b e ss. 0 < sint cnt \<longrightarrow> fst (xreadgroup c g n ks cnt b e) = Inr ss \<longrightarrow>
        int (length (concat (map snd ss))) \<le> sint cnt)"

text \<open>
  The entries \<open>ens\<close> were read in batches, each finished to its end (acknowledged after the COMMIT,
  or after the rejection) before the next was read.
\<close>

inductive finishes ::
  "(string \<Rightarrow> uuid result) \<Rightarrow> 'e LedgerConsumer \<Rightarrow> BidStreamEntry list \<Rightarrow> 'e world \<Rightarrow>
     'e world \<Rightarrow> bool"
  for up C
where
  nothing: "finishes up C [] w w"
| batch: "ReadGroup (lc_streams C) (lc_AuctionID (lc_config C)) (lc_Group (lc_config C))
        (lc_Consumer (lc_config C)) count (lc_BlockPeriod (lc_config C)) (snd w) = (Inr ens, e) \<Longrightarrow>
    processEntries up C 0 ens (fst w, e) = (Returns (length ens, None), w1) \<Longrightarrow>
    finishes up C es w1 w2 \<Longrightarrow> finishes up C (ens @ es) w w2"

section \<open>One batch\<close>

lemma ReadGroup_at_most:
  assumes "reads_at_most c" and "ReadGroup (Some c) a g n cnt b e = (Inr ens, e')"
  shows "int (length ens) \<le> sint cnt"
proof -
  have pos: "0 < sint cnt"
    using assms(2) by (auto simp: ReadGroup_def word_sle_eq split: if_splits)
  obtain r e1 where x: "xreadgroup c g n [StreamKey a, ''>''] cnt b e = (r, e1)"
    by (cases "xreadgroup c g n [StreamKey a, ''>''] cnt b e")
  show ?thesis
  proof (cases r)
    case (Inl err)
    with assms(2) x pos show ?thesis by (auto simp: ReadGroup_def split: if_splits)
  next
    case (Inr ss)
    with assms(2) x have p: "parse_streams [] ss = Inr ens"
      by (auto simp: ReadGroup_def split: if_splits)
    then have "list_all parses (concat (map snd ss))"
      using parse_streams_bad [of ss "[]"] by auto
    with p have "length ens = length (concat (map snd ss))" by (auto simp: parse_streams_ok)
    moreover have "int (length (concat (map snd ss))) \<le> sint cnt"
      using assms(1) pos x Inr unfolding reads_at_most_def by (metis fst_conv)
    ultimately show ?thesis by simp
  qed
qed

lemma processBatch_finished:
  assumes "processBatch up C cnt w = (Returns (m, None), w')"
  obtains ens e where "ReadGroup (lc_streams C) (lc_AuctionID (lc_config C))
        (lc_Group (lc_config C)) (lc_Consumer (lc_config C)) cnt (lc_BlockPeriod (lc_config C))
        (snd w) = (Inr ens, e)"
    and "processEntries up C 0 ens (fst w, e) = (Returns (length ens, None), w')"
    and "m = length ens"
proof -
  obtain ens e where r: "ReadGroup (lc_streams C) (lc_AuctionID (lc_config C))
        (lc_Group (lc_config C)) (lc_Consumer (lc_config C)) cnt (lc_BlockPeriod (lc_config C))
        (snd w) = (Inr ens, e)"
    and p: "processEntries up C 0 ens (fst w, e) = (Returns (m, None), w')"
    using assms by (auto simp: processBatch_def Let_def split: prod.splits sum.splits)
  from processEntries_run [OF p] have "m = length ens" by auto
  with r p that show thesis by blast
qed

section \<open>The loop\<close>

lemma sint64_count:
  fixes p n :: int64
  assumes "0 \<le> sint p" and "int k \<le> sint n - sint p"
  shows "sint (p + word_of_nat k) = sint p + int k"
proof -
  have "sint (word_of_nat k :: int64) = int k"
    using assms sint64_bounds [of n] by (intro sint64_of_nat) simp
  then show ?thesis
    using assms sint64_bounds [of n] by (subst sint64_add) simp_all
qed

lemma process_exactly_loop_run:
  assumes "process_exactly_loop up C n p w = Some y"
    and "lc_streams C = Some c" and "reads_at_most c"
    and "0 \<le> sint p" and "sint p \<le> sint n" and "fst y = Returns None"
  shows "\<exists>ens. int (length ens) = sint n - sint p \<and> finishes up C ens w (snd y)"
proof -
  have "lc_streams C = Some c \<longrightarrow> reads_at_most c \<longrightarrow> 0 \<le> sint p \<longrightarrow> sint p \<le> sint n \<longrightarrow>
    fst y = Returns None \<longrightarrow> (\<exists>ens. int (length ens) = sint n - sint p \<and> finishes up C ens w (snd y))"
  proof (rule process_exactly_loop.raw_induct [OF _ assms(1), where P = "\<lambda>up C n p w y.
      lc_streams C = Some c \<longrightarrow> reads_at_most c \<longrightarrow> 0 \<le> sint p \<longrightarrow> sint p \<le> sint n \<longrightarrow>
      fst y = Returns None \<longrightarrow> (\<exists>ens. int (length ens) = sint n - sint p \<and> finishes up C ens w (snd y))"],
      intro impI)
    fix loop and up :: "string \<Rightarrow> uuid result" and C :: "'a LedgerConsumer" and n p w y
    assume IH: "\<And>(up :: string \<Rightarrow> uuid result) (C :: 'a LedgerConsumer) n p w y.
        loop up C n p w = Some y \<Longrightarrow> lc_streams C = Some c \<longrightarrow> reads_at_most c \<longrightarrow> 0 \<le> sint p \<longrightarrow>
        sint p \<le> sint n \<longrightarrow> fst y = Returns None \<longrightarrow>
        (\<exists>ens. int (length ens) = sint n - sint p \<and> finishes up C ens w (snd y))"
      and step: "(if p <s n then
          let remaining = n - p;
              readCount = if remaining <s lc_BatchSize (lc_config C) then remaining
                else lc_BatchSize (lc_config C)
          in case processBatch up C readCount w of
               (Returns (x, None), w') \<Rightarrow> loop up C n (p + word_of_nat x) w'
             | (Returns (x, Some err), w') \<Rightarrow> Some (Returns (Some err), w')
             | (Process_ends, w') \<Rightarrow> Some (Process_ends, w')
        else Some (Returns None, w)) = Some y"
      and C: "lc_streams C = Some c" "reads_at_most c" and p: "0 \<le> sint p" "sint p \<le> sint n"
      and ok: "fst y = Returns None"
    show "\<exists>ens. int (length ens) = sint n - sint p \<and> finishes up C ens w (snd y)"
    proof (cases "p <s n")
      case False
      with step have "y = (Returns None, w)" by simp
      moreover have "sint n = sint p" using False p(2) by (simp add: word_sless_alt)
      ultimately show ?thesis by (intro exI [of _ "[]"]) (simp add: finishes.nothing)
    next
      case True
      define cnt where "cnt = (if n - p <s lc_BatchSize (lc_config C) then n - p
        else lc_BatchSize (lc_config C))"
      have "sint (n - p) = sint n - sint p"
        using p sint64_bounds [of n] by (intro sint64_sub) simp_all
      then have cnt: "sint cnt \<le> sint n - sint p" by (simp add: cnt_def word_sless_alt)
      from step True ok obtain m w1 where b: "processBatch up C cnt w = (Returns (m, None), w1)"
        and l: "loop up C n (p + word_of_nat m) w1 = Some y"
        by (auto simp: cnt_def [symmetric] Let_def split: prod.splits outcome.splits option.splits)
      from b obtain ens e where r: "ReadGroup (lc_streams C) (lc_AuctionID (lc_config C))
            (lc_Group (lc_config C)) (lc_Consumer (lc_config C)) cnt (lc_BlockPeriod (lc_config C))
            (snd w) = (Inr ens, e)"
        and e: "processEntries up C 0 ens (fst w, e) = (Returns (length ens, None), w1)"
        and m: "m = length ens"
        by (rule processBatch_finished)
      have "int m \<le> sint n - sint p"
        using ReadGroup_at_most [OF C(2)] r m cnt unfolding C(1) by fastforce
      with p(1) have s: "sint (p + word_of_nat m) = sint p + int m" by (rule sint64_count)
      from IH [OF l] C p ok s \<open>int m \<le> sint n - sint p\<close> obtain es where
        "int (length es) = sint n - (sint p + int m)" and "finishes up C es w1 (snd y)"
        by auto
      with finishes.batch [OF r e] m show ?thesis by (intro exI [of _ "ens @ es"]) auto
    qed
  qed
  with assms show ?thesis by blast
qed

section \<open>Properties\<close>

text \<open>
  C33. \<open>ProcessExactly\<close> is exact: when it returns without error, the entries it has taken from Redis
  are as many as it was asked for, not one more, and each was finished, that is acknowledged,
  after its COMMIT or after its rejection; a counter of 64 bits is enough.
\<close>

theorem ProcessExactly_exact:
  assumes "ProcessExactly up C n w = Some (Returns None, w')"
    and "lc_streams C = Some c" and "reads_at_most c"
  shows "\<exists>ens w1. ensureGroup C w = (None, w1) \<and> int (length ens) = sint n \<and>
    finishes up C ens w1 w'"
proof -
  from assms(1) obtain w1 where "0 <s n" and g: "ensureGroup C w = (None, w1)"
    and l: "process_exactly_loop up C n 0 w1 = Some (Returns None, w')"
    by (auto simp: ProcessExactly_def word_sless_alt word_sle_eq split: if_splits prod.splits option.splits)
  with process_exactly_loop_run [OF l assms(2,3)] show ?thesis
    by (auto simp: word_sless_alt)
qed

lemma one_at_a_time: "reads_at_most one_message_client"
  by (auto simp: reads_at_most_def one_message_client_def)

lemma exactly_one_sample:
  "ProcessExactly sample_uuid_Parse sample_consumer 1 (one_auction_db, []) =
     Some (Returns None, house_after_first, [''5-0''])"
proof -
  have r: "ReadGroup (Some one_message_client) ''A'' ''g'' ''c'' 1 2000000000 [] = (Inr [sample_entry], [])"
    by (simp add: ReadGroup_def one_message_client_def sample_message_parses word_sle_eq)
  have b: "processBatch sample_uuid_Parse sample_consumer 1 (one_auction_db, []) =
      (Returns (1, None), house_after_first, [''5-0''])"
    using r process_sample by (simp add: processBatch_def Let_def) (simp add: sample_consumer_def)
  have size: "lc_BatchSize (lc_config sample_consumer) = 20" by (simp add: sample_consumer_def)
  have "process_exactly_loop sample_uuid_Parse sample_consumer 1 0 (one_auction_db, []) =
      Some (Returns None, house_after_first, [''5-0''])"
    by (subst process_exactly_loop.simps)
      (simp add: size b word_sless_alt Let_def process_exactly_loop.simps [of _ _ 1 1])
  moreover have "ensureGroup sample_consumer (one_auction_db, []) = (None, one_auction_db, [])"
    by (simp add: sample_consumer_def one_message_client_def ensureGroup_def
        EnsureConsumerGroup_def Let_def word_sle_eq)
  ultimately show ?thesis by (simp add: ProcessExactly_def word_sle_eq)
qed

lemma ProcessExactly_exact_witness:
  "\<exists>ens. length ens = 1 \<and>
     finishes sample_uuid_Parse sample_consumer ens (one_auction_db, []) (house_after_first, [''5-0''])"
proof -
  have "ensureGroup sample_consumer (one_auction_db, []) = (None, one_auction_db, [])"
    by (simp add: sample_consumer_def one_message_client_def ensureGroup_def
        EnsureConsumerGroup_def Let_def word_sle_eq)
  with ProcessExactly_exact [OF exactly_one_sample _ one_at_a_time] show ?thesis by auto
qed

end
