(* ===== verification/Stream_Consumer.thy ===== *)
theory Stream_Consumer
  imports Stream_Store
begin

text \<open>
  \<^verbatim>\<open>src/internal/engine/consumer.go\<close>: the consumer of the first milestone, the one
  \<^verbatim>\<open>src/cmd/engine/main.go\<close> runs. It logs every entry and acknowledges it; there is no
  ledger. The context is the argument \<open>ctx_err\<close>, which may change with every look at it; the
  log is not modelled.
\<close>

section \<open>Data\<close>

record ConsumerConfig =
  cc_AuctionID :: string
  cc_Group :: string
  cc_Consumer :: string
  cc_BatchSize :: int64
  cc_BlockPeriod :: duration

record 'e Consumer =
  co_streams :: "'e StreamStore"
  co_config :: ConsumerConfig

definition NewConsumer :: "'e StreamStore \<Rightarrow> ConsumerConfig \<Rightarrow> 'e Consumer" where
  "NewConsumer streams config = \<lparr> co_streams = streams, co_config = config \<rparr>"

section \<open>Operations\<close>

text \<open>The loop over the entries: the first acknowledgement that fails ends it.\<close>

fun ack_entries ::
  "'e StreamStore \<Rightarrow> string \<Rightarrow> BidStreamEntry list \<Rightarrow> 'e \<Rightarrow> go_error option \<times> 'e"
where
  "ack_entries s grp [] e = (None, e)"
| "ack_entries s grp (entry # entries) e =
     (case Ack s (bi_AuctionID entry) grp [se_ID entry] e of
        (Some err, e') \<Rightarrow> (Some err, e')
      | (None, e') \<Rightarrow> ack_entries s grp entries e')"

text \<open>One pass of the loop: \<open>Inl\<close> with the value \<open>Run\<close> returns, or \<open>Inr\<close> to go on.\<close>

definition consumer_pass ::
  "('e \<Rightarrow> bool \<times> 'e) \<Rightarrow> 'e Consumer \<Rightarrow> 'e \<Rightarrow> (go_error option + unit) \<times> 'e"
where
  "consumer_pass ctx_err c e =
     (case ctx_err e of
        (True, e1) \<Rightarrow> (Inl None, e1)
      | (False, e1) \<Rightarrow>
          (let cf = co_config c in
           case ReadGroup (co_streams c) (cc_AuctionID cf) (cc_Group cf) (cc_Consumer cf)
               (cc_BatchSize cf) (cc_BlockPeriod cf) e1 of
             (Inl err, e2) \<Rightarrow>
               (case ctx_err e2 of
                  (True, e3) \<Rightarrow> (Inl None, e3)
                | (False, e3) \<Rightarrow> (Inl (Some (ErrWrap ''consume bid entries'' err)), e3))
           | (Inr entries, e2) \<Rightarrow>
               (case ack_entries (co_streams c) (cc_Group cf) entries e2 of
                  (Some err, e3) \<Rightarrow> (Inl (Some err), e3)
                | (None, e3) \<Rightarrow> (Inr (), e3))))"

partial_function (option) consumer_loop ::
  "('e \<Rightarrow> bool \<times> 'e) \<Rightarrow> 'e Consumer \<Rightarrow> 'e \<Rightarrow> (go_error option \<times> 'e) option"
where
  "consumer_loop ctx_err c e =
     (case consumer_pass ctx_err c e of
        (Inl ret, e') \<Rightarrow> Some (ret, e')
      | (Inr _, e') \<Rightarrow> consumer_loop ctx_err c e')"

definition consumer_Run ::
  "('e \<Rightarrow> bool \<times> 'e) \<Rightarrow> 'e Consumer \<Rightarrow> 'e \<Rightarrow> (go_error option \<times> 'e) option"
where
  "consumer_Run ctx_err c e =
     (case EnsureConsumerGroup (co_streams c) (cc_AuctionID (co_config c)) (cc_Group (co_config c)) e of
        (Some err, e') \<Rightarrow> Some (Some err, e')
      | (None, e') \<Rightarrow> consumer_loop ctx_err c e')"

section \<open>Lemmas\<close>

text \<open>The acknowledgements of some entries, one XACK each, in their order.\<close>

definition xacks :: "'e redis_client \<Rightarrow> string \<Rightarrow> BidStreamEntry list \<Rightarrow> 'e \<Rightarrow> 'e" where
  "xacks c grp entries e =
     foldl (\<lambda>e en. snd (xack c (StreamKey (bi_AuctionID en)) grp [se_ID en] e)) e entries"

lemma ack_entries_all:
  assumes "\<And>k g ids e. fst (xack c k g ids e) = None" and "grp \<noteq> []"
    and "\<And>en. en \<in> set entries \<Longrightarrow> bi_AuctionID en \<noteq> []"
  shows "ack_entries (Some c) grp entries e = (None, xacks c grp entries e)"
  using assms(3)
proof (induction entries arbitrary: e)
  case (Cons en entries)
  obtain r e1 where a: "xack c (StreamKey (bi_AuctionID en)) grp [se_ID en] e = (r, e1)"
    by (metis prod.collapse)
  with assms(1) [of "StreamKey (bi_AuctionID en)" grp "[se_ID en]" e] have "r = None" by simp
  with a Cons assms(2) show ?case by (simp add: Ack_def xacks_def)
qed (simp add: xacks_def)

section \<open>Properties\<close>

text \<open>
  C40. What the consumer of the engine command does with the bids it reads, exactly: a pass whose
  XREADGROUP returns entries takes the world to where one XACK for each entry, in order, takes
  it, and to nowhere else. The world is of any type, so it may hold a database: no statement is
  sent to it before an XACK, and the rule that a COMMIT precedes each XACK does not hold here.
\<close>

theorem consumer_acks_all_it_reads:
  assumes "ctx_err e = (False, e1)" and "cc_Group (co_config c) \<noteq> []"
    and "co_streams c = Some cl" and "\<And>k g ids e. fst (xack cl k g ids e) = None"
    and "ReadGroup (Some cl) (cc_AuctionID (co_config c)) (cc_Group (co_config c))
      (cc_Consumer (co_config c)) (cc_BatchSize (co_config c)) (cc_BlockPeriod (co_config c)) e1 =
      (Inr entries, e2)"
    and "\<And>en. en \<in> set entries \<Longrightarrow> bi_AuctionID en \<noteq> []"
  shows "consumer_pass ctx_err c e =
    (Inr (), foldl (\<lambda>e en. snd (xack cl (StreamKey (bi_AuctionID en)) (cc_Group (co_config c))
       [se_ID en] e)) e2 entries)"
  using assms ack_entries_all [of cl "cc_Group (co_config c)" entries e2]
  by (simp add: consumer_pass_def Let_def xacks_def)

lemma consumer_acks_all_it_reads_witness:
  "consumer_pass (\<lambda>e. (False, e))
      (NewConsumer (Some one_message_client)
        \<lparr> cc_AuctionID = ''A'', cc_Group = ''g'', cc_Consumer = ''c'', cc_BatchSize = 20,
          cc_BlockPeriod = 2000000000 \<rparr>) [] = (Inr (), [''5-0''])"
proof -
  have "ReadGroup (Some one_message_client) ''A'' ''g'' ''c'' 20 2000000000 [] = (Inr [sample_entry], [])"
    by (simp add: ReadGroup_def one_message_client_def sample_message_parses word_sle_eq)
  moreover have "xack one_message_client k g ids e = (None, e @ ids)" for k g ids e
    by (simp add: one_message_client_def)
  ultimately show ?thesis
    using consumer_acks_all_it_reads [of "\<lambda>e. (False, e)" "[]" "[]" "NewConsumer (Some one_message_client)
        \<lparr> cc_AuctionID = ''A'', cc_Group = ''g'', cc_Consumer = ''c'', cc_BatchSize = 20,
          cc_BlockPeriod = 2000000000 \<rparr>" one_message_client "[sample_entry]" "[]"]
    by (simp add: NewConsumer_def sample_entry_def sample_bid_def BidIngress.defs)
qed

end
