(* ===== verification/Outbox_Relay.thy ===== *)
theory Outbox_Relay
  imports Outbox_Store Stream_Store
begin

text \<open>
  \<^verbatim>\<open>src/internal/relay/outbox_relay.go\<close>: the loop that takes events out of the outbox and
  publishes them. What the relay does not own is an argument:
  \<^item> the pool of the outbox store: the behaviour of the server for the next transaction, the
    rows other transactions hold, and the database as other processes have left it by then;
  \<^item> the publisher, and \<open>json.Marshal\<close> on the envelope;
  \<^item> the context and the timer.
\<close>

section \<open>Data\<close>

definition DefaultBidEventsChannel :: string where
  "DefaultBidEventsChannel = ''bidlane:events:bids''"

record PublishedEvent =
  pe_EventID :: uuid
  pe_EventType :: string
  pe_AggregateType :: string
  pe_AggregateID :: uuid
  pe_AggregateSequence :: int64
  pe_Payload :: bytes
  pe_CreatedAt :: time

type_synonym 'e publisher = "string \<Rightarrow> bytes \<Rightarrow> 'e \<Rightarrow> go_error option \<times> 'e"

type_synonym 'e outbox_pool =
  "database \<Rightarrow> 'e \<Rightarrow> pg_driver \<times> (uuid \<Rightarrow> bool) \<times> database \<times> 'e"

record 'e relay_config =
  rc_Channel :: string
  rc_BatchSize :: int64
  rc_PollInterval :: duration
  rc_AfterPublishBeforeMark :: "'e publish_fn option"

record 'e OutboxRelay =
  or_outbox :: "'e outbox_pool"
  or_publisher :: "'e publisher"
  or_config :: "'e relay_config"

text \<open>\<open>ctx.Err() != nil\<close>, and the \<open>select\<close> between the end of the context and the timer.\<close>

record 'e relay_clock =
  ctx_done :: "'e \<Rightarrow> bool \<times> 'e"
  poll_wait :: "duration \<Rightarrow> 'e \<Rightarrow> bool \<times> 'e"

section \<open>Operations\<close>

definition NewOutboxRelay ::
  "'e outbox_pool option \<Rightarrow> 'e publisher option \<Rightarrow> 'e relay_config \<Rightarrow> 'e OutboxRelay result"
where
  "NewOutboxRelay outbox_opt publisher_opt config =
     (case outbox_opt of
        None \<Rightarrow> Inl (ErrNew ''outbox store is required'')
      | Some pool \<Rightarrow>
          (case publisher_opt of
             None \<Rightarrow> Inl (ErrNew ''outbox publisher is required'')
           | Some publisher \<Rightarrow>
               (let c1 = (if rc_Channel config = [] then
                            config\<lparr>rc_Channel := DefaultBidEventsChannel\<rparr> else config);
                    c2 = (if rc_BatchSize c1 \<le>s 0 then c1\<lparr>rc_BatchSize := 100\<rparr> else c1);
                    c3 = (if rc_PollInterval c2 \<le> 0 then
                            c2\<lparr>rc_PollInterval := 200 * 1000000\<rparr> else c2) in
                Inr \<lparr> or_outbox = pool, or_publisher = publisher, or_config = c3 \<rparr>)))"

definition envelope_of :: "OutboxEvent \<Rightarrow> PublishedEvent" where
  "envelope_of event =
     \<lparr> pe_EventID = oe_ID event, pe_EventType = oe_EventType event,
       pe_AggregateType = oe_AggregateType event, pe_AggregateID = oe_AggregateID event,
       pe_AggregateSequence = oe_AggregateSequence event, pe_Payload = oe_Payload event,
       pe_CreatedAt = oe_CreatedAt event \<rparr>"

text \<open>The closure \<open>ProcessOne\<close> hands to \<open>PublishNext\<close>.\<close>

definition publish_envelope ::
  "(PublishedEvent \<Rightarrow> bytes result) \<Rightarrow> 'e OutboxRelay \<Rightarrow> 'e publish_fn"
where
  "publish_envelope json_Marshal r event e =
     (case json_Marshal (envelope_of event) of
        Inl err \<Rightarrow> (Some (ErrWrap ''encode outbox event'' err), e)
      | Inr message \<Rightarrow> or_publisher r (rc_Channel (or_config r)) message e)"

definition ProcessOne ::
  "(PublishedEvent \<Rightarrow> bytes result) \<Rightarrow> 'e OutboxRelay \<Rightarrow> database \<times> 'e \<Rightarrow>
     bool result \<times> database \<times> 'e"
where
  "ProcessOne json_Marshal r w =
     (case or_outbox r (fst w) (snd w) of
        (d, locked, db, e) \<Rightarrow>
          PublishNext d locked (Some (publish_envelope json_Marshal r))
            (rc_AfterPublishBeforeMark (or_config r)) db e)"

text \<open>
  The inner loop of \<open>Run\<close>: \<open>remaining\<close> is \<open>BatchSize - processed\<close>. The result is the error
  that ended it, if any, and the count.
\<close>

fun relay_batch ::
  "('w \<Rightarrow> bool result \<times> 'w) \<Rightarrow> nat \<Rightarrow> nat \<Rightarrow> 'w \<Rightarrow> go_error option \<times> nat \<times> 'w"
where
  "relay_batch process_one 0 processed w = (None, processed, w)"
| "relay_batch process_one (Suc remaining) processed w =
     (case process_one w of
        (Inl err, w') \<Rightarrow> (Some err, processed, w')
      | (Inr False, w') \<Rightarrow> (None, processed, w')
      | (Inr True, w') \<Rightarrow> relay_batch process_one remaining (processed + 1) w')"

text \<open>
  One pass of the outer loop: \<open>Inl\<close> with the value \<open>Run\<close> returns, or \<open>Inr\<close> to go on.
\<close>

definition relay_pass ::
  "(PublishedEvent \<Rightarrow> bytes result) \<Rightarrow> 'e relay_clock \<Rightarrow> 'e OutboxRelay \<Rightarrow> database \<times> 'e \<Rightarrow>
     (go_error option + unit) \<times> database \<times> 'e"
where
  "relay_pass json_Marshal clk r w =
     (case ctx_done clk (snd w) of
        (True, e1) \<Rightarrow> (Inl None, fst w, e1)
      | (False, e1) \<Rightarrow>
          (case relay_batch (ProcessOne json_Marshal r) (nat (sint (rc_BatchSize (or_config r)))) 0
              (fst w, e1) of
             (Some err, _, db, e2) \<Rightarrow>
               (case ctx_done clk e2 of
                  (True, e3) \<Rightarrow> (Inl None, db, e3)
                | (False, e3) \<Rightarrow> (Inl (Some err), db, e3))
           | (None, processed, db, e2) \<Rightarrow>
               if 0 < processed then (Inr (), db, e2)
               else
                 (case poll_wait clk (rc_PollInterval (or_config r)) e2 of
                    (True, e3) \<Rightarrow> (Inl None, db, e3)
                  | (False, e3) \<Rightarrow> (Inr (), db, e3))))"

partial_function (option) relay_Run ::
  "(PublishedEvent \<Rightarrow> bytes result) \<Rightarrow> 'e relay_clock \<Rightarrow> 'e OutboxRelay \<Rightarrow> database \<times> 'e \<Rightarrow>
     (go_error option \<times> database \<times> 'e) option"
where
  "relay_Run json_Marshal clk r w =
     (case relay_pass json_Marshal clk r w of
        (Inl ret, w') \<Rightarrow> Some (ret, w')
      | (Inr _, w') \<Rightarrow> relay_Run json_Marshal clk r w')"

section \<open>The queue behind the relay\<close>

text \<open>
  What the batch loop needs of the operation it repeats: in a world that is \<open>ok\<close>, a step takes
  the first element of the queue and adds it to what was sent, or reports that there is none.
\<close>

locale publish_queue =
  fixes process_one :: "'w \<Rightarrow> bool result \<times> 'w"
    and queue :: "'w \<Rightarrow> 'x list"
    and sent :: "'w \<Rightarrow> 'x list"
    and ok :: "'w \<Rightarrow> bool"
  assumes step_ok: "ok w \<Longrightarrow> process_one w = (r, w') \<Longrightarrow> ok w'"
    and step_first: "ok w \<Longrightarrow> queue w = x # xs \<Longrightarrow> process_one w = (r, w') \<Longrightarrow>
      r = Inr True \<and> queue w' = xs \<and> sent w' = sent w @ [x]"
    and step_empty: "ok w \<Longrightarrow> queue w = [] \<Longrightarrow> process_one w = (r, w') \<Longrightarrow>
      r = Inr False \<and> queue w' = [] \<and> sent w' = sent w"
begin

lemma batch:
  assumes "ok w" and "relay_batch process_one n k w = (err, m, w')"
  shows "err = None \<and> m = k + min n (length (queue w)) \<and> ok w' \<and>
    queue w' = drop n (queue w) \<and> sent w' = sent w @ take n (queue w)"
  using assms
proof (induction n arbitrary: k w)
  case (Suc n)
  obtain r w1 where step: "process_one w = (r, w1)" by (cases "process_one w")
  have ok1: "ok w1" using Suc.prems(1) step by (rule step_ok)
  show ?case
  proof (cases "queue w")
    case Nil
    with Suc.prems step step_empty [OF Suc.prems(1) Nil step] ok1 show ?thesis by auto
  next
    case (Cons x xs)
    note first = step_first [OF Suc.prems(1) Cons step]
    with Suc.prems(2) step have "relay_batch process_one n (k + 1) w1 = (err, m, w')" by simp
    from Suc.IH [OF ok1 this] first Cons show ?thesis by simp
  qed
qed simp

lemma batch_count: "ok w \<Longrightarrow> fst (snd (relay_batch process_one n 0 w)) = min n (length (queue w))"
  using batch [of w n 0] by (cases "relay_batch process_one n 0 w") simp

end

section \<open>The relay on a server that answers\<close>

text \<open>
  A relay whose server answers every statement of every transaction, with no row held by another
  and nothing changed in between, whose publisher accepts every message and adds it to what
  \<open>sent\<close> shows of the environment, and whose envelopes encode.
\<close>

definition relay_works ::
  "(PublishedEvent \<Rightarrow> bytes) \<Rightarrow> (json_object \<Rightarrow> bytes) \<Rightarrow> ('e \<Rightarrow> bytes list) \<Rightarrow>
     (PublishedEvent \<Rightarrow> bytes result) \<Rightarrow> 'e OutboxRelay \<Rightarrow> bool"
where
  "relay_works enc text_of sent json_Marshal r \<longleftrightarrow>
     (\<forall>ev. json_Marshal ev = Inr (enc ev)) \<and>
     rc_AfterPublishBeforeMark (or_config r) = None \<and>
     (\<forall>db e. \<exists>d e'. or_outbox r db e = (d, (\<lambda>_. False), db, e') \<and> sent e' = sent e \<and>
        fault d = (\<lambda>_. None) \<and> driver_times d \<and> jsonb_text d = text_of) \<and>
     (\<forall>ch m e. \<exists>e'. or_publisher r ch m e = (None, e') \<and> sent e' = sent e @ [m])"

text \<open>The message of an outbox row.\<close>

definition row_message ::
  "(PublishedEvent \<Rightarrow> bytes) \<Rightarrow> (json_object \<Rightarrow> bytes) \<Rightarrow> outbox_row \<Rightarrow> bytes"
where
  "row_message enc text_of q =
     enc \<lparr> pe_EventID = ob_id q, pe_EventType = ob_event_type q,
       pe_AggregateType = ob_aggregate_type q, pe_AggregateID = ob_aggregate_id q,
       pe_AggregateSequence = ob_aggregate_sequence q, pe_Payload = text_of (ob_payload q),
       pe_CreatedAt = ob_created_at q * 1000 \<rparr>"

definition pending_rows :: "database \<Rightarrow> outbox_row list" where
  "pending_rows db = sort_key order_key (unpublished db)"

lemma envelope_of_event:
  assumes "driver_times d"
  shows "enc (envelope_of (the (event_of_row d q))) = row_message enc (jsonb_text d) q"
  using assms by (simp add: event_of_row_def driver_times_def envelope_of_def row_message_def)

lemma unpublished_distinct:
  "outbox_inv db \<Longrightarrow> distinct (map ob_id (unpublished db))"
  by (simp add: outbox_inv_def unpublished_def distinct_map_filter)

lemma pending_rows_Cons:
  assumes "outbox_inv db" and "pending_rows db = q # qs"
  shows "next_unpublished (\<lambda>_. False) db = Some q \<and>
    pending_rows (mark_published d (ob_id q) db) = qs"
proof -
  have "next_unpublished (\<lambda>_. False) db \<noteq> None"
    using assms(2)
    by (cases "unpublished db") (auto simp: next_unpublished_None pending_rows_def)
  then obtain q' where q': "next_unpublished (\<lambda>_. False) db = Some q'" by blast
  have "pending_rows db = q' # sort_key order_key (filter (\<lambda>x. ob_id x \<noteq> ob_id q') (unpublished db))"
    unfolding pending_rows_def
    using next_unpublished_Some [OF q'] unpublished_distinct [OF assms(1)]
    by (intro sort_key_take_min) auto
  with assms(2) q' show ?thesis by (simp add: pending_rows_def unpublished_mark)
qed

lemma pending_rows_Nil: "pending_rows db = [] \<longleftrightarrow> next_unpublished (\<lambda>_. False) db = None"
  by (simp add: next_unpublished_None pending_rows_def list_all_iff flip: set_empty)

lemma ProcessOne_works:
  assumes "relay_works enc text_of sent json_Marshal r" and "outbox_inv db"
    and "ProcessOne json_Marshal r (db, e) = (res, db', e')"
  shows "case pending_rows db of
      [] \<Rightarrow> res = Inr False \<and> db' = db \<and> sent e' = sent e
    | q # qs \<Rightarrow> res = Inr True \<and> (\<exists>d. db' = mark_published d (ob_id q) db) \<and>
        pending_rows db' = qs \<and> sent e' = sent e @ [row_message enc text_of q]"
proof -
  from assms(1) obtain d e0 where pool: "or_outbox r db e = (d, (\<lambda>_. False), db, e0)"
    "sent e0 = sent e" "fault d = (\<lambda>_. None)" "driver_times d" "jsonb_text d = text_of"
    unfolding relay_works_def by blast
  have hook: "rc_AfterPublishBeforeMark (or_config r) = None"
    and enc: "\<And>ev. json_Marshal ev = Inr (enc ev)"
    using assms(1) by (simp_all add: relay_works_def)
  note run = PublishNext_clean [OF assms(2) pool(3,4), of "\<lambda>_. False"
      "publish_envelope json_Marshal r" e0]
  show ?thesis
  proof (cases "pending_rows db")
    case Nil
    then have "next_unpublished (\<lambda>_. False) db = None" by (simp add: pending_rows_Nil)
    with Nil assms(3) pool run hook show ?thesis by (simp add: ProcessOne_def)
  next
    case (Cons q qs)
    note first = pending_rows_Cons [OF assms(2) Cons, of d]
    from assms(1) obtain e1 where pub: "or_publisher r (rc_Channel (or_config r))
        (row_message enc text_of q) e0 = (None, e1)"
      "sent e1 = sent e0 @ [row_message enc text_of q]"
      unfolding relay_works_def by blast
    have "publish_envelope json_Marshal r (the (event_of_row d q)) e0 = (None, e1)"
      using pub pool by (simp add: publish_envelope_def enc envelope_of_event)
    with Cons first assms(3) pool run hook pub show ?thesis
      by (auto simp: ProcessOne_def)
  qed
qed

interpretation outbox_queue: publish_queue
  "ProcessOne json_Marshal r"
  "\<lambda>w. map (row_message enc text_of) (pending_rows (fst w))"
  "\<lambda>w. sent (snd w)"
  "\<lambda>w. relay_works enc text_of sent json_Marshal r \<and> outbox_inv (fst w)"
  for json_Marshal :: "PublishedEvent \<Rightarrow> bytes result" and r :: "'e OutboxRelay"
    and enc text_of and sent :: "'e \<Rightarrow> bytes list"
proof
  fix w w' :: "database \<times> 'e" and res x xs
  assume ok: "relay_works enc text_of sent json_Marshal r \<and> outbox_inv (fst w)"
    and step: "ProcessOne json_Marshal r w = (res, w')"
  obtain db e where w: "w = (db, e)" by (cases w)
  obtain db' e' where w': "w' = (db', e')" by (cases w')
  note works = ProcessOne_works [of enc text_of sent json_Marshal r db e res db' e']
  show "relay_works enc text_of sent json_Marshal r \<and> outbox_inv (fst w')"
    using works ok step w w' by (auto simp: outbox_inv_mark split: list.splits)
  show "res = Inr True \<and> map (row_message enc text_of) (pending_rows (fst w')) = xs \<and>
      sent (snd w') = sent (snd w) @ [x]"
    if "map (row_message enc text_of) (pending_rows (fst w)) = x # xs"
    using works ok step w w' that by (auto split: list.splits)
  show "res = Inr False \<and> map (row_message enc text_of) (pending_rows (fst w')) = [] \<and>
      sent (snd w') = sent (snd w)"
    if "map (row_message enc text_of) (pending_rows (fst w)) = []"
    using works ok step w w' that by (auto split: list.splits)
qed

section \<open>Invariants of the loop\<close>

lemma relay_batch_inv:
  assumes "\<And>w r w'. P w \<Longrightarrow> process_one w = (r, w') \<Longrightarrow> P w'"
    and "P w" and "relay_batch process_one n k w = (err, m, w')"
  shows "P w'"
  using assms(2,3)
proof (induction n arbitrary: k w)
  case (Suc n)
  obtain r w1 where step: "process_one w = (r, w1)" by (cases "process_one w")
  with Suc.prems(1) have "P w1" by (rule assms(1))
  with Suc step show ?case by (auto split: sum.splits bool.splits)
qed simp

text \<open>A condition on the world that neither the clock nor one \<open>ProcessOne\<close> breaks.\<close>

lemma relay_pass_inv:
  assumes one: "\<And>w r' w'. P w \<Longrightarrow> ProcessOne json_Marshal r w = (r', w') \<Longrightarrow> P w'"
    and ctx: "\<And>db e b e'. P (db, e) \<Longrightarrow> ctx_done clk e = (b, e') \<Longrightarrow> P (db, e')"
    and tick: "\<And>db e b e'. P (db, e) \<Longrightarrow>
      poll_wait clk (rc_PollInterval (or_config r)) e = (b, e') \<Longrightarrow> P (db, e')"
    and "P w" and "relay_pass json_Marshal clk r w = (ret, w')"
  shows "P w'"
proof -
  obtain db e where w: "w = (db, e)" by (cases w)
  obtain b1 e1 where c1: "ctx_done clk e = (b1, e1)" by (cases "ctx_done clk e")
  have p1: "P (db, e1)" using ctx c1 \<open>P w\<close> w by blast
  show ?thesis
  proof (cases b1)
    case True
    with assms(5) w c1 p1 show ?thesis by (auto simp: relay_pass_def)
  next
    case False
    obtain err m db2 e2 where batch: "relay_batch (ProcessOne json_Marshal r)
        (nat (sint (rc_BatchSize (or_config r)))) 0 (db, e1) = (err, m, db2, e2)"
      by (metis prod.collapse)
    have p2: "P (db2, e2)" using one p1 batch by (rule relay_batch_inv)
    obtain b3 e3 where c3: "ctx_done clk e2 = (b3, e3)" by (cases "ctx_done clk e2")
    obtain b4 e4 where c4: "poll_wait clk (rc_PollInterval (or_config r)) e2 = (b4, e4)"
      by (cases "poll_wait clk (rc_PollInterval (or_config r)) e2")
    have "P (db2, e3)" "P (db2, e4)" using p2 c3 c4 ctx tick by blast+
    with p2 assms(5) False w c1 batch c3 c4 show ?thesis
      by (auto simp: relay_pass_def split: option.splits bool.splits if_splits)
  qed
qed

section \<open>Every marked event was sent\<close>

definition marked_were_sent ::
  "(PublishedEvent \<Rightarrow> bytes) \<Rightarrow> (json_object \<Rightarrow> bytes) \<Rightarrow> database \<Rightarrow> bytes list \<Rightarrow> bool"
where
  "marked_were_sent enc text_of db log \<longleftrightarrow>
     (\<forall>q \<in> set (outbox db). ob_published_at q \<noteq> None \<longrightarrow> row_message enc text_of q \<in> set log)"

text \<open>
  A relay whose server may fail anywhere and whose publisher may fail before or after the message
  went out: a publish that returned no error sent the message, nothing that was sent is unsent,
  and other processes do not mark events.
\<close>

definition relay_honest ::
  "(PublishedEvent \<Rightarrow> bytes) \<Rightarrow> (json_object \<Rightarrow> bytes) \<Rightarrow> ('e \<Rightarrow> bytes list) \<Rightarrow>
     (PublishedEvent \<Rightarrow> bytes result) \<Rightarrow> 'e OutboxRelay \<Rightarrow> bool"
where
  "relay_honest enc text_of sent json_Marshal r \<longleftrightarrow>
     (\<forall>ev m. json_Marshal ev = Inr m \<longrightarrow> m = enc ev) \<and>
     (\<forall>db e d locked db' e'. or_outbox r db e = (d, locked, db', e') \<longrightarrow>
        driver_times d \<and> jsonb_text d = text_of \<and> set (sent e) \<subseteq> set (sent e') \<and>
        (outbox_inv db \<and> marked_were_sent enc text_of db (sent e) \<longrightarrow>
         outbox_inv db' \<and> marked_were_sent enc text_of db' (sent e))) \<and>
     (\<forall>ch m e err e'. or_publisher r ch m e = (err, e') \<longrightarrow>
        set (sent e) \<subseteq> set (sent e') \<and> (err = None \<longrightarrow> m \<in> set (sent e'))) \<and>
     (\<forall>h ev e err e'. rc_AfterPublishBeforeMark (or_config r) = Some h \<longrightarrow> h ev e = (err, e') \<longrightarrow>
        set (sent e) \<subseteq> set (sent e'))"

lemma marked_were_sent_mono:
  "marked_were_sent enc text_of db log \<Longrightarrow> set log \<subseteq> set log' \<Longrightarrow>
     marked_were_sent enc text_of db log'"
  by (auto simp: marked_were_sent_def)

lemma row_message_marked [simp]:
  "row_message enc text_of (marked d i q) = row_message enc text_of q"
  by (simp add: row_message_def marked_def)

text \<open>What the environment has seen after \<open>PublishNext\<close>.\<close>

lemma PublishNext_env:
  assumes "PublishNext d locked (Some p) h db e = (r, db', e')"
    and "\<And>ev e err e'. p ev e = (err, e') \<Longrightarrow> Q e \<Longrightarrow> Q e'"
    and "\<And>g ev e err e'. h = Some g \<Longrightarrow> g ev e = (err, e') \<Longrightarrow> Q e \<Longrightarrow> Q e'" and "Q e"
  shows "Q e'"
  using assms
  by (auto simp: PublishNext_def publish_and_mark_def split: option.splits sum.splits prod.splits
      if_splits)

lemma publish_envelope_sends:
  assumes "relay_honest enc text_of sent json_Marshal r"
    and "publish_envelope json_Marshal r ev e = (err, e')"
  shows "set (sent e) \<subseteq> set (sent e') \<and> (err = None \<longrightarrow> enc (envelope_of ev) \<in> set (sent e'))"
  using assms by (auto simp: publish_envelope_def relay_honest_def split: sum.splits)

lemma relay_honest_pool:
  assumes "relay_honest enc text_of sent json_Marshal r"
    and "or_outbox r db e = (d, locked, db', e')"
  shows "driver_times d \<and> jsonb_text d = text_of \<and> set (sent e) \<subseteq> set (sent e') \<and>
    (outbox_inv db \<and> marked_were_sent enc text_of db (sent e) \<longrightarrow>
     outbox_inv db' \<and> marked_were_sent enc text_of db' (sent e))"
  using assms unfolding relay_honest_def by (elim conjE allE) (erule (1) impE)

lemma relay_honest_hook:
  assumes "relay_honest enc text_of sent json_Marshal r"
    and "rc_AfterPublishBeforeMark (or_config r) = Some h" and "h ev e = (err, e')"
  shows "set (sent e) \<subseteq> set (sent e')"
  using assms unfolding relay_honest_def by simp

lemma marked_were_sent_mark:
  assumes "outbox_inv db" and "marked_were_sent enc text_of db log" and "q \<in> set (unpublished db)"
    and "row_message enc text_of q \<in> set log"
  shows "marked_were_sent enc text_of (mark_published d (ob_id q) db) log"
proof -
  have "row_message enc text_of x \<in> set log"
    if x: "x \<in> set (outbox db)" "ob_published_at (marked d (ob_id q) x) \<noteq> None" for x
  proof (cases "to_mark (ob_id q) x")
    case True
    have "inj_on ob_id (set (outbox db))"
      using assms(1) by (simp add: outbox_inv_def distinct_map)
    moreover have "q \<in> set (outbox db)" using assms(3) by (simp add: unpublished_def)
    ultimately have "x = q" using True x(1) by (auto simp: to_mark_def dest: inj_onD)
    with assms(4) show ?thesis by simp
  next
    case False
    with x assms(2) show ?thesis by (auto simp: marked_were_sent_def marked_def)
  qed
  then show ?thesis by (auto simp: marked_were_sent_def mark_published_def)
qed

text \<open>The invariant of the world: the outbox is well formed and every marked event was sent.\<close>

definition sent_inv ::
  "(PublishedEvent \<Rightarrow> bytes) \<Rightarrow> (json_object \<Rightarrow> bytes) \<Rightarrow> ('e \<Rightarrow> bytes list) \<Rightarrow>
     database \<times> 'e \<Rightarrow> bool"
where
  "sent_inv enc text_of sent w \<longleftrightarrow>
     outbox_inv (fst w) \<and> marked_were_sent enc text_of (fst w) (sent (snd w))"

lemma sent_inv_mono:
  "sent_inv enc text_of sent (db, e) \<Longrightarrow> set (sent e) \<subseteq> set (sent e') \<Longrightarrow>
     sent_inv enc text_of sent (db, e')"
  by (auto simp: sent_inv_def intro: marked_were_sent_mono)

lemma ProcessOne_sent_inv:
  assumes "relay_honest enc text_of sent json_Marshal r"
    and "sent_inv enc text_of sent w" and "ProcessOne json_Marshal r w = (res, w')"
  shows "sent_inv enc text_of sent w'"
proof -
  obtain d locked db e where pool: "or_outbox r (fst w) (snd w) = (d, locked, db, e)"
    by (metis prod.collapse)
  note p = relay_honest_pool [OF assms(1) pool]
  then have d: "driver_times d" "jsonb_text d = text_of" by simp_all
  have inv: "sent_inv enc text_of sent (db, e)"
    using p assms(2) by (auto simp: sent_inv_def intro: marked_were_sent_mono)
  obtain db' e' where w': "w' = (db', e')" by (cases w')
  have run: "PublishNext d locked (Some (publish_envelope json_Marshal r))
      (rc_AfterPublishBeforeMark (or_config r)) db e = (res, db', e')"
    using assms(3) pool w' by (simp add: ProcessOne_def)
  note hook = relay_honest_hook [OF assms(1)]
  have sub: "set (sent e) \<subseteq> set (sent e')"
  proof (rule PublishNext_env [OF run, where Q = "\<lambda>x. set (sent e) \<subseteq> set (sent x)"])
    fix ev x err y
    assume "publish_envelope json_Marshal r ev x = (err, y)" and "set (sent e) \<subseteq> set (sent x)"
    then show "set (sent e) \<subseteq> set (sent y)" using publish_envelope_sends [OF assms(1)] by blast
  next
    fix g ev x err y
    assume "rc_AfterPublishBeforeMark (or_config r) = Some g" and "g ev x = (err, y)"
      and "set (sent e) \<subseteq> set (sent x)"
    then show "set (sent e) \<subseteq> set (sent y)" using hook by blast
  qed simp
  from PublishNext_outcome [OF run] consider "db' = db" | q ev e1 where
    "event_of_row d q = Some ev" "publish_envelope json_Marshal r ev e = (None, e1)"
    "db' = mark_published d (ob_id q) db" "q \<in> set (unpublished db)"
    "rc_AfterPublishBeforeMark (or_config r) = None \<and> e' = e1 \<or>
      (\<exists>g. rc_AfterPublishBeforeMark (or_config r) = Some g \<and> g ev e1 = (None, e'))"
    using next_unpublished_Some(1) by blast
  then show ?thesis
  proof cases
    case 1
    with inv sub w' show ?thesis by (auto intro: sent_inv_mono)
  next
    case 2
    have "set (sent e1) \<subseteq> set (sent e')" using 2(5) hook by blast
    moreover have "row_message enc text_of q \<in> set (sent e1)"
      using publish_envelope_sends [OF assms(1) 2(2)] envelope_of_event [OF d(1), of enc q] 2(1) d(2)
      by simp
    ultimately show ?thesis
      using inv sub 2(3,4) w'
      by (auto simp: sent_inv_def intro: marked_were_sent_mark marked_were_sent_mono outbox_inv_mark)
  qed
qed

section \<open>Draining\<close>

text \<open>A clock that lets the relay work and ends the context when it first waits.\<close>

definition stops_when_idle :: "'e relay_clock \<Rightarrow> bool" where
  "stops_when_idle clk \<longleftrightarrow>
     (\<forall>e. ctx_done clk e = (False, e)) \<and> (\<forall>p e. poll_wait clk p e = (True, e))"

lemma relay_Run_drains:
  assumes works: "relay_works enc text_of sent json_Marshal r" and clk: "stops_when_idle clk"
    and size: "0 < sint (rc_BatchSize (or_config r))"
    and "outbox_inv db"
  shows "\<exists>db' e'. relay_Run json_Marshal clk r (db, e) = Some (None, db', e') \<and>
    pending_rows db' = [] \<and> sent e' = sent e @ map (row_message enc text_of) (pending_rows db)"
  using assms(4)
proof (induction "length (pending_rows db)" arbitrary: db e rule: less_induct)
  case less
  let ?n = "nat (sint (rc_BatchSize (or_config r)))" and ?msgs = "map (row_message enc text_of)"
  obtain err m db2 e2 where batch: "relay_batch (ProcessOne json_Marshal r) ?n 0 (db, e) =
      (err, m, db2, e2)"
    by (metis prod.collapse)
  from outbox_queue.batch [of enc text_of sent json_Marshal r "(db, e)", OF _ batch]
  have b: "err = None" "m = min ?n (length (pending_rows db))" "outbox_inv db2"
    "?msgs (pending_rows db2) = drop ?n (?msgs (pending_rows db))"
    "sent e2 = sent e @ take ?n (?msgs (pending_rows db))"
    using works less.prems by simp_all
  have len: "length (pending_rows db2) = length (pending_rows db) - ?n"
    using arg_cong [OF b(4), of length] by simp
  show ?case
  proof (cases "pending_rows db")
    case Nil
    with b len batch clk show ?thesis
      by (subst relay_Run.simps) (simp add: relay_pass_def stops_when_idle_def)
  next
    case (Cons q qs)
    then have "relay_pass json_Marshal clk r (db, e) = (Inr (), db2, e2)"
      using b(1,2) batch clk size by (simp add: relay_pass_def stops_when_idle_def)
    moreover have "length (pending_rows db2) < length (pending_rows db)"
      using len Cons size by simp
    then obtain db' e' where "relay_Run json_Marshal clk r (db2, e2) = Some (None, db', e')"
      "pending_rows db' = []" "sent e' = sent e2 @ ?msgs (pending_rows db2)"
      using less.hyps b(3) by blast
    ultimately show ?thesis
      using b(4,5) by (subst relay_Run.simps) simp
  qed
qed

section \<open>Sample\<close>

definition sample_relay :: "bytes list OutboxRelay" where
  "sample_relay =
     \<lparr> or_outbox = (\<lambda>db e. (good_driver, (\<lambda>_. False), db, e)),
       or_publisher = (\<lambda>ch m e. (None, e @ [m])),
       or_config = \<lparr> rc_Channel = DefaultBidEventsChannel, rc_BatchSize = 100,
         rc_PollInterval = 200000000, rc_AfterPublishBeforeMark = None \<rparr> \<rparr>"

definition sample_clock :: "bytes list relay_clock" where
  "sample_clock = \<lparr> ctx_done = (\<lambda>e. (False, e)), poll_wait = (\<lambda>p e. (True, e)) \<rparr>"

lemma sample_relay_works:
  "relay_works pe_EventType (\<lambda>_. ''{}'') (\<lambda>e. e) (\<lambda>ev. Inr (pe_EventType ev)) sample_relay"
proof -
  have "jsonb_text good_driver = (\<lambda>_. ''{}'')" by (rule ext) simp
  then show ?thesis by (simp add: relay_works_def sample_relay_def fault_good_driver)
qed

lemma sample_relay_honest:
  "relay_honest pe_EventType (\<lambda>_. ''{}'') (\<lambda>e. e) (\<lambda>ev. Inr (pe_EventType ev)) sample_relay"
proof -
  have "jsonb_text good_driver = (\<lambda>_. ''{}'')" by (rule ext) simp
  then show ?thesis by (auto simp: relay_honest_def sample_relay_def)
qed

lemma pending_after_first:
  "pending_rows house_after_first = [accepted_event good_driver first_bid 5000000 first_answer]"
  by (simp add: pending_rows_def unpublished_def house_after_first_def accepted_event_def)

section \<open>Properties\<close>

text \<open>
  A constructed relay is always usable: it fails only for a missing store or publisher, and
  otherwise has a channel, a positive batch size and a positive poll interval, taken from the
  configuration where that sets them.
\<close>

theorem NewOutboxRelay_usable:
  "case NewOutboxRelay outbox_opt publisher_opt config of
     Inl err \<Rightarrow> outbox_opt = None \<or> publisher_opt = None
   | Inr r \<Rightarrow>
       Some (or_outbox r) = outbox_opt \<and> Some (or_publisher r) = publisher_opt \<and>
       rc_Channel (or_config r) =
         (if rc_Channel config = [] then ''bidlane:events:bids'' else rc_Channel config) \<and>
       rc_Channel (or_config r) \<noteq> [] \<and>
       sint (rc_BatchSize (or_config r)) =
         (if sint (rc_BatchSize config) \<le> 0 then 100 else sint (rc_BatchSize config)) \<and>
       0 < rc_PollInterval (or_config r) \<and>
       rc_AfterPublishBeforeMark (or_config r) = rc_AfterPublishBeforeMark config"
  by (simp add: NewOutboxRelay_def Let_def DefaultBidEventsChannel_def word_sle_eq
      split: option.split)

text \<open>
  C10. The relay drains the outbox: on a server that answers, with a publisher that accepts every
  message, \<open>Run\<close> returns once it is told to stop while idle, and by then every event that was
  unpublished has been sent exactly once, oldest first by creation time and id, whatever the
  batch size; nothing is left unpublished.
\<close>

theorem relay_drains_in_order:
  assumes "relay_works enc text_of sent json_Marshal r" and "stops_when_idle clk"
    and "0 < sint (rc_BatchSize (or_config r))" and "outbox_inv db"
  shows "\<exists>db' e'. relay_Run json_Marshal clk r (db, e) = Some (None, db', e') \<and>
    pending_rows db' = [] \<and> sent e' = sent e @ map (row_message enc text_of) (pending_rows db)"
  using assms by (rule relay_Run_drains)

lemma relay_drains_in_order_witness:
  "\<exists>db'. relay_Run (\<lambda>ev. Inr (pe_EventType ev)) sample_clock sample_relay (house_after_first, []) =
     Some (None, db', [''BidAccepted''])"
proof -
  have "row_message pe_EventType (\<lambda>_. ''{}'')
      (accepted_event good_driver first_bid 5000000 first_answer) = ''BidAccepted''"
    by (simp add: row_message_def accepted_event_def)
  moreover have "stops_when_idle sample_clock"
    by (simp add: stops_when_idle_def sample_clock_def)
  moreover have "0 < sint (rc_BatchSize (or_config sample_relay))"
    by (simp add: sample_relay_def)
  ultimately show ?thesis
    using relay_drains_in_order [OF sample_relay_works, of sample_clock house_after_first "[]"]
      house_inv_after_first pending_after_first
    by (auto simp: house_inv_def)
qed

text \<open>
  C12. No event is lost by the relay: as long as the publisher reports success only for messages
  it sent, every event that is marked published has been sent, through any number of passes of
  \<open>Run\<close>, whatever statement, COMMIT, publication or hook fails, and with other processes adding
  events in between. (An event may be sent more often than once.)
\<close>

theorem relay_marked_were_sent:
  assumes "relay_honest enc text_of sent json_Marshal r"
    and "\<And>e b e'. ctx_done clk e = (b, e') \<Longrightarrow> sent e' = sent e"
    and "\<And>p e b e'. poll_wait clk p e = (b, e') \<Longrightarrow> sent e' = sent e"
    and "sent_inv enc text_of sent w"
  shows "sent_inv enc text_of sent (((\<lambda>w. snd (relay_pass json_Marshal clk r w)) ^^ n) w)"
proof (induction n)
  case 0
  with assms(4) show ?case by simp
next
  case (Suc n)
  let ?w = "((\<lambda>w. snd (relay_pass json_Marshal clk r w)) ^^ n) w"
  have "sent_inv enc text_of sent (snd (relay_pass json_Marshal clk r ?w))"
  proof (rule relay_pass_inv [where P = "sent_inv enc text_of sent"])
    show "relay_pass json_Marshal clk r ?w =
        (fst (relay_pass json_Marshal clk r ?w), snd (relay_pass json_Marshal clk r ?w))"
      by simp
    show "sent_inv enc text_of sent (db, e')"
      if "sent_inv enc text_of sent (db, e)" and "ctx_done clk e = (b, e')" for db e b e'
      using that assms(2) by (auto intro: sent_inv_mono)
    show "sent_inv enc text_of sent (db, e')"
      if "sent_inv enc text_of sent (db, e)"
        and "poll_wait clk (rc_PollInterval (or_config r)) e = (b, e')" for db e b e'
      using that assms(3) by (auto intro: sent_inv_mono)
  qed (use Suc ProcessOne_sent_inv [OF assms(1)] in auto)
  then show ?case by simp
qed

lemma relay_marked_were_sent_witness:
  "sent_inv pe_EventType (\<lambda>_. ''{}'') (\<lambda>e. e)
     (((\<lambda>w. snd (relay_pass (\<lambda>ev. Inr (pe_EventType ev)) sample_clock sample_relay w)) ^^ 3)
       (house_after_first, []))"
proof (rule relay_marked_were_sent [OF sample_relay_honest])
  show "sent_inv pe_EventType (\<lambda>_. ''{}'') (\<lambda>e. e) (house_after_first, [])"
    using house_inv_after_first
    by (simp add: sent_inv_def house_inv_def marked_were_sent_def house_after_first_def
        accepted_event_def)
qed (auto simp: sample_clock_def)

text \<open>
  Shutdown: a context that is done before a pass ends \<open>Run\<close> without an error, without a
  statement to the server and without a publication.
\<close>

theorem relay_shutdown:
  assumes "ctx_done clk (snd w) = (True, e1)"
  shows "relay_Run json_Marshal clk r w = Some (None, fst w, e1)"
  using assms by (subst relay_Run.simps) (simp add: relay_pass_def)

lemma relay_shutdown_witness:
  "relay_Run (\<lambda>ev. Inr (pe_EventType ev)) (sample_clock\<lparr>ctx_done := (\<lambda>e. (True, e))\<rparr>) sample_relay
     (house_after_first, []) = Some (None, house_after_first, [])"
  using relay_shutdown [of "sample_clock\<lparr>ctx_done := (\<lambda>e. (True, e))\<rparr>" "(house_after_first, [])" "[]"]
  by simp

end
