(* ===== verification/Pg_Connect.thy ===== *)
theory Pg_Connect
  imports Prelude
begin

text \<open>
  \<^verbatim>\<open>src/internal/store/postgres/postgres.go\<close>: opening one connection, and opening a pool whose
  connections assume a database role. The pgx package is the record \<open>pg_net\<close> of the calls the
  code makes, over an environment \<open>'e\<close>; \<open>'c\<close>, \<open>'f\<close> and \<open>'p\<close> are its connections, parsed
  configurations and pools.
\<close>

type_synonym ('c, 'e) after_connect = "'c \<Rightarrow> 'e \<Rightarrow> go_error option \<times> 'e"

record ('c, 'f, 'p, 'e) pg_net =
  pgx_connect :: "string \<Rightarrow> 'e \<Rightarrow> 'c result \<times> 'e"
  conn_ping :: "'c \<Rightarrow> 'e \<Rightarrow> go_error option \<times> 'e"
  conn_close :: "'c \<Rightarrow> 'e \<Rightarrow> 'e"
  conn_exec :: "'c \<Rightarrow> string \<Rightarrow> 'e \<Rightarrow> go_error option \<times> 'e"
  pool_parse_config :: "string \<Rightarrow> 'f result"
  pool_new :: "'f \<Rightarrow> ('c, 'e) after_connect option \<Rightarrow> 'e \<Rightarrow> 'p result \<times> 'e"
  pool_ping :: "'p \<Rightarrow> 'e \<Rightarrow> go_error option \<times> 'e"
  pool_close :: "'p \<Rightarrow> 'e \<Rightarrow> 'e"

definition Connect :: "('c, 'f, 'p, 'e) pg_net \<Rightarrow> string \<Rightarrow> 'e \<Rightarrow> 'c result \<times> 'e" where
  "Connect net dsn e =
     (case pgx_connect net dsn e of
        (Inl err, e1) \<Rightarrow> (Inl (ErrWrap ''connect to PostgreSQL'' err), e1)
      | (Inr conn, e1) \<Rightarrow>
          (case conn_ping net conn e1 of
             (Some err, e2) \<Rightarrow> (Inl (ErrWrap ''ping PostgreSQL'' err), conn_close net conn e2)
           | (None, e2) \<Rightarrow> (Inr conn, e2)))"

text \<open>The hook \<open>AfterConnect\<close> of a role.\<close>

definition assume_role ::
  "('c, 'f, 'p, 'e) pg_net \<Rightarrow> string \<Rightarrow> string \<Rightarrow> ('c, 'e) after_connect"
where
  "assume_role net statement msg conn e =
     (case conn_exec net conn statement e of
        (Some err, e') \<Rightarrow> (Some (ErrWrap msg err), e')
      | (None, e') \<Rightarrow> (None, e'))"

definition ConnectPool ::
  "('c, 'f, 'p, 'e) pg_net \<Rightarrow> string \<Rightarrow> string \<Rightarrow> 'e \<Rightarrow> 'p result \<times> 'e"
where
  "ConnectPool net dsn role e =
     (case pool_parse_config net dsn of
        Inl err \<Rightarrow> (Inl (ErrWrap ''parse PostgreSQL pool configuration'' err), e)
      | Inr config \<Rightarrow>
          let hook =
            (if role = [] then Inr None
             else if role = ''bidlane_engine'' then
               Inr (Some (assume_role net ''SET ROLE bidlane_engine'' ''assume bidlane_engine role''))
             else if role = ''bidlane_outbox_relay'' then
               Inr (Some (assume_role net ''SET ROLE bidlane_outbox_relay''
                 ''assume bidlane_outbox_relay role''))
             else Inl (ErrNew ''unsupported PostgreSQL role''))
          in
          (case hook of
             Inl err \<Rightarrow> (Inl err, e)
           | Inr afterConnect \<Rightarrow>
               (case pool_new net config afterConnect e of
                  (Inl err, e1) \<Rightarrow> (Inl (ErrWrap ''create PostgreSQL pool'' err), e1)
                | (Inr pool, e1) \<Rightarrow>
                    (case pool_ping net pool e1 of
                       (Some err, e2) \<Rightarrow>
                         (Inl (ErrWrap ''ping PostgreSQL pool'' err), pool_close net pool e2)
                     | (None, e2) \<Rightarrow> (Inr pool, e2)))))"

section \<open>Properties\<close>

text \<open>
  Nothing is left open after a failure, and no connection works under the wrong role: for a
  configuration that parses, a role other than the three known ones is refused without touching
  the network; a known one opens a pool in which every new connection executes that role's
  \<^verbatim>\<open>SET ROLE\<close> before it is used (for the empty role, nothing); and a pool that does not answer
  is closed before the error is returned.
\<close>

theorem ConnectPool_role_and_cleanup:
  assumes "pool_parse_config net dsn = Inr config"
    and "pool_new net config
      (if role = [] then None
       else Some (assume_role net (''SET ROLE '' @ role) (''assume '' @ role @ '' role''))) e =
      (Inr pool, e1)"
    and "pool_ping net pool e1 = (ping, e2)"
  shows "ConnectPool net dsn role e =
    (if role \<in> {'''', ''bidlane_engine'', ''bidlane_outbox_relay''}
     then (case ping of
             None \<Rightarrow> (Inr pool, e2)
           | Some err \<Rightarrow> (Inl (ErrWrap ''ping PostgreSQL pool'' err), pool_close net pool e2))
     else (Inl (ErrNew ''unsupported PostgreSQL role''), e))"
proof -
  consider "role = ''''" | "role = ''bidlane_engine''" | "role = ''bidlane_outbox_relay''"
    | "role \<notin> {'''', ''bidlane_engine'', ''bidlane_outbox_relay''}"
    by blast
  then show ?thesis
    using assms
    by cases (auto simp: ConnectPool_def Let_def split: option.split)
qed

definition trace_net :: "(nat, string, nat, string list) pg_net" where
  "trace_net =
     \<lparr> pgx_connect = (\<lambda>dsn e. (Inr 0, e @ [''connect''])), conn_ping = (\<lambda>c e. (None, e)),
       conn_close = (\<lambda>c e. e @ [''close'']), conn_exec = (\<lambda>c s e. (None, e @ [s])),
       pool_parse_config = Inr,
       pool_new = (\<lambda>f h e. case h of None \<Rightarrow> (Inr 1, e) | Some g \<Rightarrow> (Inr 1, snd (g 0 e))),
       pool_ping = (\<lambda>p e. (Some (ErrDriver ''refused''), e)),
       pool_close = (\<lambda>p e. e @ [''close pool'']) \<rparr>"

lemma ConnectPool_role_and_cleanup_witness:
  "ConnectPool trace_net ''dsn'' ''bidlane_engine'' [] =
     (Inl (ErrWrap ''ping PostgreSQL pool'' (ErrDriver ''refused'')),
      [''SET ROLE bidlane_engine'', ''close pool''])"
  using ConnectPool_role_and_cleanup [of trace_net "''dsn''" "''dsn''" "''bidlane_engine''" "[]" 1
      "[''SET ROLE bidlane_engine'']" "Some (ErrDriver ''refused'')" "[''SET ROLE bidlane_engine'']"]
  by (simp add: trace_net_def assume_role_def)

end
