(* ===== verification/Commands.thy ===== *)
theory Commands
  imports Stream_Consumer Outbox_Relay Pg_Connect
begin

text \<open>
  The two programs, \<^verbatim>\<open>src/cmd/engine/main.go\<close> and \<^verbatim>\<open>src/cmd/outbox-relay/main.go\<close>: what they
  read from the environment variables, the order in which they connect, and how the process
  ends. \<open>getenv\<close> is \<open>os.Getenv\<close>; \<open>new_client\<close> is the constructor of the Redis client; the
  deferred closes and the log are left out. \<open>strconv.Atoi\<close> accepts what \<open>ParseInt\<close> in base 10
  accepts.
\<close>

text \<open>\<open>os.Exit\<close> with a code, the end of \<open>main\<close>, or a panic that ends the process.\<close>

datatype process_end = Exit_with nat | Main_returns | Panics string

section \<open>The engine\<close>

definition requiredEnvironment :: "(string \<Rightarrow> string) \<Rightarrow> string \<Rightarrow> process_end + string" where
  "requiredEnvironment getenv name =
     (let value = getenv name in if value = [] then Inl (Exit_with 1) else Inr value)"

definition requiredIntegerEnvironment ::
  "(string \<Rightarrow> string) \<Rightarrow> string \<Rightarrow> process_end + int64"
where
  "requiredIntegerEnvironment getenv name =
     (case requiredEnvironment getenv name of
        Inl x \<Rightarrow> Inl x
      | Inr rawValue \<Rightarrow>
          (case ParseInt rawValue of Inl err \<Rightarrow> Inl (Exit_with 1) | Inr value \<Rightarrow> Inr value))"

text \<open>The configuration \<open>main\<close> reads, in its order.\<close>

definition engine_environment ::
  "(string \<Rightarrow> string) \<Rightarrow> process_end + string \<times> string \<times> int64 \<times> string \<times> string \<times> string"
where
  "engine_environment getenv =
     (case requiredEnvironment getenv ''REDIS_ADDR'' of
        Inl x \<Rightarrow> Inl x
      | Inr redisAddress \<Rightarrow>
     (case requiredIntegerEnvironment getenv ''REDIS_DB'' of
        Inl x \<Rightarrow> Inl x
      | Inr redisDatabase \<Rightarrow>
     (case requiredEnvironment getenv ''AUCTION_ID'' of
        Inl x \<Rightarrow> Inl x
      | Inr auctionID \<Rightarrow>
     (case requiredEnvironment getenv ''CONSUMER_GROUP'' of
        Inl x \<Rightarrow> Inl x
      | Inr consumerGroup \<Rightarrow>
     (case requiredEnvironment getenv ''CONSUMER_NAME'' of
        Inl x \<Rightarrow> Inl x
      | Inr consumerName \<Rightarrow>
          Inr (redisAddress, getenv ''REDIS_PASSWORD'', redisDatabase, auctionID, consumerGroup,
            consumerName))))))"

definition engine_main ::
  "(string \<Rightarrow> string) \<Rightarrow> (string \<Rightarrow> string \<Rightarrow> int64 \<Rightarrow> 'e redis_client) \<Rightarrow> ('e \<Rightarrow> bool \<times> 'e) \<Rightarrow>
     'e \<Rightarrow> (process_end \<times> 'e) option"
where
  "engine_main getenv new_client ctx_err e =
     (case engine_environment getenv of
        Inl x \<Rightarrow> Some (x, e)
      | Inr (redisAddress, redisPassword, redisDatabase, auctionID, consumerGroup, consumerName) \<Rightarrow>
          (let streams = NewStreamStore (Some (new_client redisAddress redisPassword redisDatabase)) in
           case Ping streams e of
             (Some err, e1) \<Rightarrow> Some (Exit_with 1, e1)
           | (None, e1) \<Rightarrow>
               (case consumer_Run ctx_err
                   (NewConsumer streams
                     \<lparr> cc_AuctionID = auctionID, cc_Group = consumerGroup,
                       cc_Consumer = consumerName, cc_BatchSize = 20,
                       cc_BlockPeriod = 2 * 1000000000 \<rparr>) e1 of
                  None \<Rightarrow> None
                | Some (Some err, e2) \<Rightarrow> Some (Exit_with 1, e2)
                | Some (None, e2) \<Rightarrow> Some (Main_returns, e2))))"

section \<open>The outbox relay\<close>

definition relay_requiredEnvironment :: "(string \<Rightarrow> string) \<Rightarrow> string \<Rightarrow> process_end + string" where
  "relay_requiredEnvironment getenv name =
     (let value = getenv name in
      if value = [] then Inl (Panics ''required environment variable is missing'') else Inr value)"

definition NewPubSubPublisher :: "'e redis_client option \<Rightarrow> 'e PubSubPublisher" where
  "NewPubSubPublisher client = client"

definition NewOutboxStore :: "('p \<Rightarrow> 'e outbox_pool) \<Rightarrow> 'p \<Rightarrow> 'e outbox_pool" where
  "NewOutboxStore transactions pool = transactions pool"

text \<open>\<open>transactions\<close> is how a pgx pool runs transactions.\<close>

definition outbox_relay_main ::
  "(string \<Rightarrow> string) \<Rightarrow> ('c, 'f, 'p, 'e) pg_net \<Rightarrow> ('p \<Rightarrow> 'e outbox_pool) \<Rightarrow>
     (string \<Rightarrow> string \<Rightarrow> int64 \<Rightarrow> 'e redis_client) \<Rightarrow> (PublishedEvent \<Rightarrow> bytes result) \<Rightarrow>
     'e relay_clock \<Rightarrow> database \<times> 'e \<Rightarrow> (process_end \<times> database \<times> 'e) option"
where
  "outbox_relay_main getenv net transactions new_client json_Marshal clk w =
     (case relay_requiredEnvironment getenv ''POSTGRES_DSN'' of
        Inl x \<Rightarrow> Some (x, w)
      | Inr postgresDSN \<Rightarrow>
     (case relay_requiredEnvironment getenv ''REDIS_ADDR'' of
        Inl x \<Rightarrow> Some (x, w)
      | Inr redisAddress \<Rightarrow>
     (case ConnectPool net postgresDSN ''bidlane_outbox_relay'' (snd w) of
        (Inl err, e1) \<Rightarrow> Some (Exit_with 1, fst w, e1)
      | (Inr relayPool, e1) \<Rightarrow>
          (let redisClient = new_client redisAddress [] 0 in
           case redis_ping redisClient e1 of
             (Some err, e2) \<Rightarrow> Some (Exit_with 1, fst w, e2)
           | (None, e2) \<Rightarrow>
               (case NewOutboxRelay (Some (NewOutboxStore transactions relayPool))
                   (Some (Publish (NewPubSubPublisher (Some redisClient))))
                   \<lparr> rc_Channel = DefaultBidEventsChannel, rc_BatchSize = 100,
                     rc_PollInterval = 200 * 1000000, rc_AfterPublishBeforeMark = None \<rparr> of
                  Inl err \<Rightarrow> Some (Exit_with 1, fst w, e2)
                | Inr relay \<Rightarrow>
                    (case relay_Run json_Marshal clk relay (fst w, e2) of
                       None \<Rightarrow> None
                     | Some (Some err, w') \<Rightarrow> Some (Exit_with 1, w')
                     | Some (None, w') \<Rightarrow> Some (Main_returns, w')))))))"

section \<open>Lemmas\<close>

lemma requiredEnvironment_Inr [simp]:
  "requiredEnvironment getenv name = Inr v \<longleftrightarrow> v = getenv name \<and> v \<noteq> []"
  by (auto simp: requiredEnvironment_def Let_def)

lemma requiredEnvironment_Inl [simp]:
  "requiredEnvironment getenv name = Inl x \<longleftrightarrow> x = Exit_with 1 \<and> getenv name = []"
  by (auto simp: requiredEnvironment_def Let_def)

lemma NewOutboxRelay_production:
  "NewOutboxRelay (Some p) (Some q)
      \<lparr> rc_Channel = DefaultBidEventsChannel, rc_BatchSize = 100, rc_PollInterval = 200000000,
        rc_AfterPublishBeforeMark = None \<rparr> =
     Inr \<lparr> or_outbox = p, or_publisher = q,
       or_config = \<lparr> rc_Channel = ''bidlane:events:bids'', rc_BatchSize = 100,
         rc_PollInterval = 200000000, rc_AfterPublishBeforeMark = None \<rparr> \<rparr>"
  by (simp add: NewOutboxRelay_def Let_def DefaultBidEventsChannel_def word_sle_eq)

section \<open>Properties\<close>

text \<open>
  The engine starts only on a complete configuration: unless the five required variables are
  set and the database number is a decimal within 64 bits, the process exits with code 1 before
  any command reaches Redis; the password alone may be empty.
\<close>

theorem engine_needs_complete_environment:
  assumes "getenv ''REDIS_ADDR'' = [] \<or> getenv ''AUCTION_ID'' = [] \<or> getenv ''CONSUMER_GROUP'' = [] \<or>
    getenv ''CONSUMER_NAME'' = [] \<or> getenv ''REDIS_DB'' = [] \<or>
    (\<exists>err. ParseInt (getenv ''REDIS_DB'') = Inl err)"
  shows "engine_main getenv new_client ctx_err e = Some (Exit_with 1, e)"
proof -
  have "engine_environment getenv = Inl (Exit_with 1)"
    using assms
    by (auto simp: engine_environment_def requiredIntegerEnvironment_def requiredEnvironment_def Let_def
        split: sum.split)
  then show ?thesis by (simp add: engine_main_def)
qed

lemma engine_needs_complete_environment_witness:
  "engine_main (\<lambda>_. []) (\<lambda>a p n. one_message_client) (\<lambda>e. (False, e)) [] = Some (Exit_with 1, [])"
  by (rule engine_needs_complete_environment) simp

text \<open>
  The relay process never works with other rights than those of the relay role, and not
  without Redis: its run starts only after a pool under \<^verbatim>\<open>bidlane_outbox_relay\<close> was opened and
  Redis has answered, with the default channel, batches of 100 and the production setting of no
  test hook; otherwise it ends, by a panic or with code 1, and the database is as it was.
\<close>

theorem outbox_relay_main_starts:
  "case outbox_relay_main getenv net transactions new_client json_Marshal clk w of
      None \<Rightarrow> True
    | Some (x, w') \<Rightarrow>
        ((x = Exit_with 1 \<or> x = Panics ''required environment variable is missing'') \<and>
         fst w' = fst w) \<or>
        (\<exists>pool e1 e2 err.
           ConnectPool net (getenv ''POSTGRES_DSN'') ''bidlane_outbox_relay'' (snd w) = (Inr pool, e1) \<and>
           redis_ping (new_client (getenv ''REDIS_ADDR'') [] 0) e1 = (None, e2) \<and>
           relay_Run json_Marshal clk
             \<lparr> or_outbox = transactions pool,
               or_publisher = Publish (Some (new_client (getenv ''REDIS_ADDR'') [] 0)),
               or_config = \<lparr> rc_Channel = ''bidlane:events:bids'', rc_BatchSize = 100,
                 rc_PollInterval = 200000000, rc_AfterPublishBeforeMark = None \<rparr> \<rparr> (fst w, e2) =
             Some (err, w') \<and>
              x = (case err of None \<Rightarrow> Main_returns | Some _ \<Rightarrow> Exit_with 1))"
  by (auto simp: outbox_relay_main_def relay_requiredEnvironment_def NewOutboxRelay_production
      NewOutboxStore_def NewPubSubPublisher_def Let_def
      simp del: split_paired_Ex split: option.split sum.split prod.split
      intro!: exI [where x = "Some _"])

end
