(* ===== verification/Spec2Isabelle.thy ===== *)
theory Spec2Isabelle
  imports Unparsable_Bids Append_Errors Crash_Recovery Interleaving Privileges Process_Exactly Commands
begin

text \<open>
  BidLane takes the bids of online auctions. A bid enters through the service, which appends it to
  the Redis stream of its auction; a consumer reads the stream in a consumer group, gives each bid
  to the ledger in PostgreSQL, and acknowledges the stream entry only after the transaction has
  committed; the same transaction writes an event into an outbox table; the relay publishes the
  events to subscribers and marks them. This development models the Go code of these parts (under
  \<^verbatim>\<open>src/internal\<close> and \<^verbatim>\<open>src/cmd\<close>) operation by operation and proves what they promise together:
  a gap-free, append-only, exactly-once ledger per auction, deadlines and extensions that hold
  under failures, no bid lost between stream and ledger, no event lost between ledger and
  subscribers.

  The theories, in the order of their dependence:
  \<^item> \<open>Prelude\<close>: machine integers, UUIDs, times, Go errors (\<open>errors.Is\<close>, \<open>%w\<close>), signed 64-bit
    arithmetic, lists. \<open>Go_Std\<close>: the functions of Go's standard library the program computes
    with, among them \<open>strconv.ParseInt\<close> with its round trip.
  \<^item> \<open>Bid_Validation\<close> (\<^verbatim>\<open>internal/engine/bid_validation.go\<close>): \<open>EvaluateBid\<close> on 64-bit words,
    equal to a table of checks over unbounded integers; the ascending prices.
  \<^item> \<open>Stream_Store\<close> (\<^verbatim>\<open>internal/store/redis/*.go\<close>): the adapter to Redis streams and
    publish/subscribe, the encoding of a bid as a message and back, the time in a stream ID.
  \<^item> \<open>Bid_Service\<close> (\<^verbatim>\<open>internal/engine/service.go\<close>) and \<open>Stream_Consumer\<close>
    (\<^verbatim>\<open>internal/engine/consumer.go\<close>): the two clients of that adapter which know no ledger.
  \<^item> \<open>Ledger_Db\<close>: the tables of \<^verbatim>\<open>src/migrations\<close>, the SQL statements of the Go code, one
    definition each with the constraints they run into, and transactions. The server is a
    record \<open>pg_driver\<close> that may fail any call, may lose the acknowledgement of a COMMIT, and
    encodes and scans values.
  \<^item> \<open>Ledger_Contract\<close>: the locale \<open>bid_ledger\<close>, the laws of an append that may be delivered
    again. \<open>Ledger_Store\<close> (\<^verbatim>\<open>internal/store/postgres/ledger.go\<close>) interprets it with the row-lock
    append, \<open>Anti_Snipe\<close> (\<^verbatim>\<open>anti_snipe.go\<close>, \<^verbatim>\<open>outbox_event.go\<close>) with the production append.
  \<^item> \<open>Auction_House\<close>: the abstract auction \<open>spec_submit\<close> and the proof that the production
    transaction refines it, its replay, deadline and extension behaviour. \<open>Append_Errors\<close>: what
    every error of that transaction comes from, and what it leaves.
  \<^item> \<open>Outbox_Store\<close> (\<^verbatim>\<open>internal/store/postgres/outbox.go\<close>) and \<open>Outbox_Relay\<close>
    (\<^verbatim>\<open>internal/relay/outbox_relay.go\<close>): publishing one event inside a transaction, the locale
    \<open>publish_queue\<close> behind the batch loop, its interpretation by \<open>ProcessOne\<close>, the main loop.
  \<^item> \<open>Ledger_Consumer\<close> (\<^verbatim>\<open>internal/engine/ledger_consumer.go\<close>): the whole consumer with its
    hooks. \<open>Commit_Before_Ack\<close>, \<open>Crash_Recovery\<close> and \<open>Process_Exactly\<close>: what it guarantees; the
    entries its validator turned away are collected along the run. \<open>Unparsable_Bids\<close>: service,
    stream and consumer together, on a bid whose identifiers do not parse.
  \<^item> \<open>Pg_Connect\<close> (\<^verbatim>\<open>internal/store/postgres/postgres.go\<close>) and \<open>Commands\<close> (\<^verbatim>\<open>cmd/*/main.go\<close>).
  \<^item> \<open>Auction_System\<close>: histories of the database under openings, bids and publications; the
    properties over whole histories are in this theory.
  \<^item> \<open>Sql_Transactions\<close>: the two appending transactions cut into their statements, a datatype of
    programs that wait for the server's reply. \<open>Ledger_Schema\<close>: the constraints of all migrations
    as one predicate, which the statements keep. \<open>Concurrent_Appends\<close> and \<open>Interleaving\<close>: any number of
    such transactions interleaved under the row locks of PostgreSQL; the result is serial, it
    refines the histories of \<open>Auction_System\<close>, the production path does not deadlock, the two
    paths mixed on one auction can.
  \<^item> \<open>Relay_Sessions\<close>: several relays on one outbox, \<open>PublishNext\<close> cut at its outside calls,
    from BEGIN to COMMIT. \<open>Privileges\<close>: the roles, the grants and the trigger of
    \<^verbatim>\<open>src/migrations\<close>, against any data statement on the columns of the model and against DDL.

  How code corresponds to definitions. A Go function is a definition of the same name that takes
  and returns the state it changes: the database and, where something outside is called, an
  environment \<open>'e\<close> of arbitrary type. Errors are the left side of a sum; a run-time panic or the
  end of the process inside a call is a value of its own. \<open>int64\<close> and \<open>int32\<close> are words and
  wrap. In the theories of single components a transaction is a function of the committed
  database, and what other transactions commit is the database the pool hands to the next one.
  That this loses nothing is proved in \<open>Interleaving\<close>: with the statements run one at
  a time, under READ COMMITTED and the locks they take, the ended calls give the committed
  database one after another. A statement of that model takes all its locks at once, a wait is
  not ended by the deadlock detector or a timeout, and one call of the relay is one step there
  (\<open>Relay_Sessions\<close> cuts it up).

  Loops. Loops over a list are recursions on it. The batch loop of the relay recurs on the number
  of events still allowed. The loops that may run for ever (\<open>Run\<close> of the relay and of both
  consumers, the recovery scan, \<open>ProcessExactly\<close>) are partial functions into \<open>option\<close>: not
  returning is \<open>None\<close>. That the recovery scan returns is proved from the order of its cursors,
  that the relay returns after it has emptied the outbox from the length of the queue; what
  holds while the other loops go on is proved of every pass, or of every reachable world.

  What is relied on, always as a named definition with an instance in the witnesses: a scan of a
  finite timestamp gives its instant and a time is sent with its nanoseconds cut off
  (\<open>driver_times\<close>); Redis acknowledges only what it is told to and delivers under an ID what was
  stored under it (\<open>redis_honest\<close>), and no more than asked for (\<open>reads_at_most\<close>); the cursors of
  XAUTOCLAIM advance (\<open>cursors_advance\<close>); a publisher that reports success has sent the message
  (\<open>relay_honest\<close>).

  Not modelled: log lines; the context of a call inside a library, whose cancellation is one of
  the errors the library may return; \<open>json.Marshal\<close>, \<open>uuid\<close>, \<open>pgx\<close> and \<open>go-redis\<close>
  themselves; the locks between the native-sequence path, which only the benchmark uses, and the
  others; the tests, the container files and the \<^verbatim>\<open>.venv\<close> directory.
\<close>

section \<open>Histories of the whole system\<close>

lemma recorded_prefix:
  assumes "history_kept db db'" and "recorded db k = Some n"
  shows "recorded db' k = Some n"
proof -
  obtain new where "bids db' = bids db @ new"
    using assms(1) by (auto simp: history_kept_def prefix_def)
  with assms(2) show ?thesis
    by (auto simp: recorded_def find_bid_def find_append split: option.splits)
qed

text \<open>An extension only moves the close time forward, and a sample bid that is in the window.\<close>

lemma extended_by_forward:
  assumes "0 < extension_interval r" and "extended_by n r r'"
  shows "\<not> ts_less (effective_close_time r') (effective_close_time r)"
proof -
  have "\<not> ts_less (ts_shift ts (int n * extension_interval r)) ts" for ts
    using assms(1) by (cases ts) (simp_all add: ts_shift_def not_less)
  moreover obtain c k where "r' = r\<lparr>effective_close_time := c, extension_count := k\<rparr>"
    and "c = ts_shift (effective_close_time r) (int n * extension_interval r)"
    using assms(2) unfolding extended_by_def by blast
  ultimately show ?thesis by simp
qed

lemma sample_extension:
  "\<exists>r'. auctions (fst (AppendBidIdempotentWithAntiSnipe good_driver first_bid 999990000000
       one_auction_db)) 7 = Some r' \<and> extension_count r' = 1"
proof -
  have "clean_call good_driver first_bid 999990000000 one_auction_db open_auction 1000000000"
    by (simp add: clean_call_def finite_times_def ts_valid_def open_auction_def IsZero_def
        zero_time_def fault_good_driver)
  then obtain db' res where call: "AppendBidIdempotentWithAntiSnipe good_driver first_bid 999990000000
      one_auction_db = (db', Inr res)"
    using anti_snipe_new_bid [of one_auction_db good_driver first_bid open_auction 1000000000
        999990000000] by (auto simp: clean_call_def)
  from anti_snipe_Inr [OF call] have
    "anti_snipe_commits good_driver first_bid 999990000000 open_auction one_auction_db db' res" by auto
  then have "auctions db' 7 = Some (row_after good_driver open_auction 999990000000)"
    by (simp add: anti_snipe_commits_def)
  moreover have "extension_count (row_after good_driver open_auction 999990000000) = 1"
    by (simp add: row_after_def extend_auction_row_def open_auction_def ts_valid_def Let_def
        auction_row_ok_def word_sle_eq word_sless_alt)
  ultimately show ?thesis using call by simp
qed

section \<open>Properties\<close>

text \<open>
  C4. I1 and I3 for every history: starting from an empty database, after any sequence of openings
  of auctions, bids and publications, with any failures, the bids of every auction are numbered
  \<open>1..n\<close> without gaps and with no key twice, the outbox tells of exactly these bids, and every
  bid in it was submitted before the close time its event carries.
\<close>

theorem history_is_well_formed:
  assumes "system_steps empty_db db"
  shows "map (\<lambda>r. sint (row_sequence_no r)) (auction_bids db a) =
      [1..int (length (auction_bids db a))] \<and>
    distinct (map row_idempotency_key (auction_bids db a)) \<and>
    list_all2 event_for (outbox db) (bids db) \<and> (\<forall>q \<in> set (outbox db). in_time q)"
  using system_inv_steps [OF assms system_inv_empty]
  by (simp add: system_inv_def house_inv_def ledger_inv_def auction_inv_def outbox_inv_def)

lemma history_is_well_formed_witness:
  "in_time (marked good_driver 77 (accepted_event good_driver first_bid 5000000 first_answer))"
  using history_is_well_formed [OF sample_history]
  by (auto simp: mark_published_def house_after_first_def)

text \<open>
  C6. I7 for every history: from any reachable database on, an auction keeps its window, interval
  and maximum, its close time is the earlier one plus the interval for each of the extensions
  counted in between, and the count never passes the maximum. A close time never moves back.
\<close>

theorem history_extends_by_intervals:
  assumes "system_steps empty_db db" and "system_steps db db'" and "auctions db a = Some r"
  shows "\<exists>n r'. auctions db' a = Some r' \<and>
    r' = r\<lparr>effective_close_time := ts_shift (effective_close_time r) (int n * extension_interval r),
      extension_count := extension_count r'\<rparr> \<and>
    sint (extension_count r') = sint (extension_count r) + int n \<and>
    sint (extension_count r') \<le> sint (max_extensions r) \<and>
    \<not> ts_less (effective_close_time r') (effective_close_time r)"
proof -
  have inv: "system_inv db" using assms(1) system_inv_empty by (rule system_inv_steps)
  then have "0 < extension_interval r"
    using assms(3) by (auto simp: system_inv_def house_inv_def ledger_inv_def auction_row_ok_def)
  then have "extended_by n r r' \<Longrightarrow> \<not> ts_less (effective_close_time r') (effective_close_time r)" for n r'
    by (rule extended_by_forward)
  with steps_row [OF assms(2) inv assms(3)] show ?thesis
    unfolding extended_by_def by blast
qed

lemma history_extends_by_intervals_witness:
  "\<exists>r'. auctions (fst (AppendBidIdempotentWithAntiSnipe good_driver first_bid 999990000000
       one_auction_db)) 7 = Some r' \<and>
     effective_close_time r' = Ts (1000000000 + sint (extension_count r') * 30000000) \<and>
     sint (extension_count r') = 1"
proof -
  obtain db' r' where db': "fst (AppendBidIdempotentWithAntiSnipe good_driver first_bid 999990000000
      one_auction_db) = db'" and r': "auctions db' 7 = Some r'" "extension_count r' = 1"
    using sample_extension by blast
  have "system_steps one_auction_db db'"
    using step_bid [OF driver_times_good, of 999990000000 first_bid one_auction_db] db'
    by (cases "AppendBidIdempotentWithAntiSnipe good_driver first_bid 999990000000 one_auction_db") auto
  from history_extends_by_intervals [OF sample_opening this, of 7 open_auction] db' r'
  show ?thesis by (auto simp: open_auction_def ts_shift_def)
qed

text \<open>
  C22. The ledger is append-only: in any history, the bids of an earlier moment are a prefix of
  those of a later one, a key keeps the number it was recorded under, and the earlier events are
  still there in order, unchanged but for the mark of their publication, which is never taken
  back or set twice.
\<close>

theorem history_is_append_only:
  assumes "system_steps db db'"
  shows "prefix (bids db) (bids db') \<and> (recorded db k = Some n \<longrightarrow> recorded db' k = Some n) \<and>
    (\<exists>evs new. outbox db' = evs @ new \<and>
       list_all2 (\<lambda>q q'.
         q' = q\<lparr>ob_published_at := ob_published_at q', ob_publish_attempts := ob_publish_attempts q'\<rparr> \<and>
         (ob_published_at q \<noteq> None \<longrightarrow> q' = q)) (outbox db) evs)"
  using steps_history [OF assms] recorded_prefix [OF steps_history [OF assms]]
  by (simp add: history_kept_def same_event_def [abs_def])

lemma history_is_append_only_witness:
  "prefix (bids empty_db) (bids (mark_published good_driver 77 house_after_first))"
  using history_is_append_only [OF sample_history] by blast

end
